theory Spec2Isabelle
  imports Complex_Main "HOL-Library.Word" "HOL-Library.Log_Nat"
begin

unbundle bit_operations_syntax

section \<open>Grayscale conversion with brightness and contrast\<close>

text \<open>
  The development follows the C sources \<^verbatim>\<open>modules/util.c\<close>,
  \<^verbatim>\<open>modules/brightness_contrast.c\<close> and \<^verbatim>\<open>modules/brightness_contrast_sse.c\<close>.

  Integer types are modelled bit-precisely: \<^verbatim>\<open>uint8_t\<close> is \<^typ>\<open>8 word\<close>,
  \<^verbatim>\<open>uint16_t\<close> and \<^verbatim>\<open>int16_t\<close> are \<^typ>\<open>16 word\<close> (read through \<open>uint\<close>
  respectively \<open>sint\<close>), \<^verbatim>\<open>size_t\<close> indices are natural numbers.

  In the grayscale stage of the two scalar variants and in
  \<^verbatim>\<open>convert_coeffs_to_max256\<close> every \<^verbatim>\<open>float\<close> and \<^verbatim>\<open>double\<close> operation is
  rounded to binary32 respectively binary64 (to nearest, ties to even), one
  rounding per operation, and may overflow to an infinity or yield NaN. The
  weights passed to the functions are finite numbers. The statistics of the
  contrast stage (mean, variance, \<^verbatim>\<open>sqrtHeron\<close>, the rescale of the pixels) are
  taken over the exact real numbers; the statements about that stage below reach
  it only where the operations of the code are exact. The value NaN that marks an
  unset contrast is \<open>None\<close> in a \<^typ>\<open>real option\<close>. Conversions from a floating
  value to an integer type truncate towards zero, as in C, and are undefined when
  the value is not finite or the truncated value does not fit the target type.

  A call either does not return (\<open>None\<close>), or returns 0 after printing
  ``computation for contrast failed'' (\<open>Inl ContrastComputationFailed\<close>), or runs
  into a conversion without defined behaviour (\<open>Inl UndefinedConversion\<close>), or
  returns 1 with the first \<open>width * height\<close> bytes of the output buffer
  (\<open>Inr result\<close>).
\<close>

type_synonym uint8_t = "8 word"
type_synonym uint16_t = "16 word"
type_synonym int16_t = "16 word"

datatype error = ContrastComputationFailed | UndefinedConversion

type_synonym outcome = "(error + uint8_t list) option"

subsection \<open>Binary floating-point arithmetic\<close>

text \<open>Round to the nearest integer, ties to the even one.\<close>

definition rne :: "real \<Rightarrow> int" where
  "rne y =
     (let f = \<lfloor>y\<rfloor>; d = y - real_of_int f
      in if d < 1 / 2 then f else if 1 / 2 < d then f + 1 else if even f then f else f + 1)"

text \<open>
  A binary format with \<open>p\<close> digits and least normal exponent \<open>emin\<close>: the exponent
  of the binade of \<open>x\<close> (for a subnormal \<open>x\<close> that of the least normal numbers), the
  unit in the last place there, and the number of the format nearest to \<open>x\<close>, ties
  to even.
\<close>

definition expo :: "int \<Rightarrow> int \<Rightarrow> real \<Rightarrow> int" where
  "expo p emin x = max emin (bitlen \<lfloor>\<bar>x\<bar> * 2 powi (p - 1 - emin)\<rfloor> - 1 - (p - 1 - emin))"

definition ulp :: "int \<Rightarrow> int \<Rightarrow> real \<Rightarrow> real" where
  "ulp p emin x = 2 powi (expo p emin x - p + 1)"

definition rnd :: "int \<Rightarrow> int \<Rightarrow> real \<Rightarrow> real" where
  "rnd p emin x = ulp p emin x * real_of_int (rne (x / ulp p emin x))"

text \<open>The formats of \<^verbatim>\<open>float\<close> (binary32) and \<^verbatim>\<open>double\<close> (binary64).\<close>

definition fl32 :: "real \<Rightarrow> real" where
  "fl32 x = rnd 24 (- 126) x"

definition fl64 :: "real \<Rightarrow> real" where
  "fl64 x = rnd 53 (- 1022) x"

text \<open>
  A floating value: a finite number, plus or minus infinity, or NaN. The two
  zeros are not told apart; a quotient by zero takes the sign of its numerator.
\<close>

datatype fp = Fin real | Inf | NInf | NaN

text \<open>
  Rounding with overflow: a number at or beyond the midpoint between the largest
  finite number and the next power of two becomes infinite.
\<close>

definition f32 :: "real \<Rightarrow> fp" where
  "f32 x =
     (if 2 ^ 128 - 2 ^ 103 \<le> x then Inf
      else if x \<le> - (2 ^ 128 - 2 ^ 103) then NInf
      else Fin (fl32 x))"

definition f64 :: "real \<Rightarrow> fp" where
  "f64 x =
     (if 2 ^ 1024 - 2 ^ 970 \<le> x then Inf
      else if x \<le> - (2 ^ 1024 - 2 ^ 970) then NInf
      else Fin (fl64 x))"

text \<open>A \<^verbatim>\<open>float\<close> is a real number that rounding to binary32 leaves as it is.\<close>

definition is_f32 :: "real \<Rightarrow> bool" where
  "is_f32 x = (f32 x = Fin x)"

text \<open>
  The arithmetic operations; \<open>r\<close> is the rounding of the type in which the
  operation is carried out.
\<close>

definition fp_sign :: "fp \<Rightarrow> int" where
  "fp_sign x =
     (case x of
        Fin u \<Rightarrow> (if 0 < u then 1 else if u < 0 then - 1 else 0)
      | Inf \<Rightarrow> 1
      | NInf \<Rightarrow> - 1
      | NaN \<Rightarrow> 0)"

definition fp_neg :: "fp \<Rightarrow> fp" where
  "fp_neg x = (case x of Fin u \<Rightarrow> Fin (- u) | Inf \<Rightarrow> NInf | NInf \<Rightarrow> Inf | NaN \<Rightarrow> NaN)"

definition fp_add :: "(real \<Rightarrow> fp) \<Rightarrow> fp \<Rightarrow> fp \<Rightarrow> fp" where
  "fp_add r x y =
     (case (x, y) of
        (Fin u, Fin v) \<Rightarrow> r (u + v)
      | (NaN, _) \<Rightarrow> NaN
      | (_, NaN) \<Rightarrow> NaN
      | (Inf, NInf) \<Rightarrow> NaN
      | (NInf, Inf) \<Rightarrow> NaN
      | (Inf, _) \<Rightarrow> Inf
      | (_, Inf) \<Rightarrow> Inf
      | _ \<Rightarrow> NInf)"

definition fp_sub :: "(real \<Rightarrow> fp) \<Rightarrow> fp \<Rightarrow> fp \<Rightarrow> fp" where
  "fp_sub r x y = fp_add r x (fp_neg y)"

definition fp_mul :: "(real \<Rightarrow> fp) \<Rightarrow> fp \<Rightarrow> fp \<Rightarrow> fp" where
  "fp_mul r x y =
     (case (x, y) of
        (Fin u, Fin v) \<Rightarrow> r (u * v)
      | (NaN, _) \<Rightarrow> NaN
      | (_, NaN) \<Rightarrow> NaN
      | _ \<Rightarrow> (if fp_sign x * fp_sign y = 0 then NaN
              else if 0 < fp_sign x * fp_sign y then Inf else NInf))"

definition fp_div :: "(real \<Rightarrow> fp) \<Rightarrow> fp \<Rightarrow> fp \<Rightarrow> fp" where
  "fp_div r x y =
     (case (x, y) of
        (Fin u, Fin v) \<Rightarrow>
          (if v = 0 then (if u = 0 then NaN else if 0 < u then Inf else NInf)
           else r (u / v))
      | (NaN, _) \<Rightarrow> NaN
      | (_, NaN) \<Rightarrow> NaN
      | (Fin u, _) \<Rightarrow> Fin 0
      | (_, Fin v) \<Rightarrow> (if (0 \<le> v) = (x = Inf) then Inf else NInf)
      | _ \<Rightarrow> NaN)"

text \<open>The comparison \<open>x < y\<close>; it is false when an operand is NaN.\<close>

definition fp_less :: "fp \<Rightarrow> fp \<Rightarrow> bool" where
  "fp_less x y =
     (case (x, y) of
        (Fin u, Fin v) \<Rightarrow> u < v
      | (NaN, _) \<Rightarrow> False
      | (_, NaN) \<Rightarrow> False
      | (NInf, NInf) \<Rightarrow> False
      | (NInf, _) \<Rightarrow> True
      | (Inf, _) \<Rightarrow> False
      | (_, Inf) \<Rightarrow> True
      | _ \<Rightarrow> False)"

text \<open>The conversion of a \<^verbatim>\<open>double\<close> to \<^verbatim>\<open>float\<close>.\<close>

definition to_f32 :: "fp \<Rightarrow> fp" where
  "to_f32 x = (case x of Fin u \<Rightarrow> f32 u | _ \<Rightarrow> x)"

subsection \<open>Conversions to integer types\<close>

definition trunc :: "real \<Rightarrow> int" where
  "trunc x = (if 0 \<le> x then \<lfloor>x\<rfloor> else \<lceil>x\<rceil>)"

text \<open>The unguarded cast \<^verbatim>\<open>(uint8_t) res\<close> of a floating value.\<close>

definition cast_u8 :: "real \<Rightarrow> uint8_t option" where
  "cast_u8 res = (if - 1 < res \<and> res < 256 then Some (word_of_int (trunc res)) else None)"

text \<open>The assignment of a floating value to an \<^verbatim>\<open>int16_t\<close> variable.\<close>

definition fcast_u8 :: "fp \<Rightarrow> uint8_t option" where
  "fcast_u8 res = (case res of Fin u \<Rightarrow> cast_u8 u | _ \<Rightarrow> None)"

text \<open>The assignment of a \<^verbatim>\<open>float\<close> to a \<^verbatim>\<open>uint16_t\<close> variable.\<close>

definition fcast_u16 :: "fp \<Rightarrow> uint16_t option" where
  "fcast_u16 res =
     (case res of
        Fin u \<Rightarrow> (if - 1 < u \<and> u < 65536 then Some (word_of_int (trunc u)) else None)
      | _ \<Rightarrow> None)"

definition cast_i16 :: "real \<Rightarrow> int16_t option" where
  "cast_i16 res =
     (if - 32769 < res \<and> res < 32768 then Some (word_of_int (trunc res)) else None)"

text \<open>
  The chain \<^verbatim>\<open>if (res > 255) 255 else if (res < 0) 0 else (uint8_t) res\<close> on a
  floating value; the cast in the last branch is always defined.
\<close>

definition clamp_u8 :: "real \<Rightarrow> uint8_t" where
  "clamp_u8 res =
     (if res > 255 then 255 else if res < 0 then 0 else word_of_int (trunc res))"

text \<open>
  The chain on a \<^verbatim>\<open>float\<close> that may be infinite or NaN: both comparisons are
  false for NaN, and the cast of NaN is undefined.
\<close>

definition fclamp_u8 :: "fp \<Rightarrow> uint8_t option" where
  "fclamp_u8 res =
     (case res of
        Fin u \<Rightarrow> Some (clamp_u8 u)
      | Inf \<Rightarrow> Some 255
      | NInf \<Rightarrow> Some 0
      | NaN \<Rightarrow> None)"

text \<open>The same chain on an \<^verbatim>\<open>int16_t\<close> value, compared as a signed number.\<close>

definition clamp_i16 :: "int16_t \<Rightarrow> uint8_t" where
  "clamp_i16 res =
     (if sint res > 255 then 255 else if sint res < 0 then 0 else ucast res)"

subsection \<open>Integer weights: \<^verbatim>\<open>convert_coeffs_to_max256\<close>\<close>

type_synonym coeffs = "uint16_t \<times> uint16_t \<times> uint16_t"

text \<open>\<^verbatim>\<open>int total = coeffs[0] + coeffs[1] + coeffs[2]\<close>, computed in \<^verbatim>\<open>int\<close>.\<close>

definition total :: "coeffs \<Rightarrow> int" where
  "total cs = (case cs of (c0, c1, c2) \<Rightarrow> uint c0 + uint c1 + uint c2)"

text \<open>\<^verbatim>\<open>float sum = a + b + c\<close>, as all three functions compute it.\<close>

definition weight_sum :: "real \<Rightarrow> real \<Rightarrow> real \<Rightarrow> fp" where
  "weight_sum a b c = fp_add f32 (fp_add f32 (Fin a) (Fin b)) (Fin c)"

text \<open>
  The initial assignment \<^verbatim>\<open>coeffs[k] = 256 * (x / sum)\<close>: a \<^verbatim>\<open>float\<close> product,
  converted to \<^verbatim>\<open>uint16_t\<close>.
\<close>

definition init_coeff :: "real \<Rightarrow> fp \<Rightarrow> uint16_t option" where
  "init_coeff x s = fcast_u16 (fp_mul f32 (Fin 256) (fp_div f32 (Fin x) s))"

definition init_coeffs :: "real \<Rightarrow> real \<Rightarrow> real \<Rightarrow> coeffs option" where
  "init_coeffs a b c =
     (let sum = weight_sum a b c in
      case (init_coeff a sum, init_coeff b sum, init_coeff c sum) of
        (Some c0, Some c1, Some c2) \<Rightarrow> Some (c0, c1, c2)
      | _ \<Rightarrow> None)"

text \<open>
  \<^verbatim>\<open>float a_diff = 256.0 * a / sum - coeffs[0]\<close>: the constant \<^verbatim>\<open>256.0\<close> is a
  \<^verbatim>\<open>double\<close>, so the product, the quotient and the difference are \<^verbatim>\<open>double\<close>
  operations, and the result is converted to \<^verbatim>\<open>float\<close>.
\<close>

definition coeff_diff :: "real \<Rightarrow> fp \<Rightarrow> uint16_t \<Rightarrow> fp" where
  "coeff_diff x s c =
     to_f32 (fp_sub f64 (fp_div f64 (fp_mul f64 (Fin 256) (Fin x)) s)
                        (Fin (real_of_int (uint c))))"

text \<open>
  One pass through the \<^verbatim>\<open>else\<close> branch of the loop body. The guard of the
  increase/decrease choice reads the variable \<^verbatim>\<open>sum\<close>, the \<^verbatim>\<open>float\<close> sum of the
  three weights, as the source does.
\<close>

definition adjust :: "real \<Rightarrow> real \<Rightarrow> real \<Rightarrow> coeffs \<Rightarrow> coeffs" where
  "adjust a b c cs =
     (case cs of (c0, c1, c2) \<Rightarrow>
        let sum = weight_sum a b c;
            a_diff = coeff_diff a sum c0;
            b_diff = coeff_diff b sum c1;
            c_diff = coeff_diff c sum c2
        in if fp_less sum (Fin 256) then
             (if fp_less b_diff a_diff then
                (if fp_less c_diff a_diff then (c0 + 1, c1, c2) else (c0, c1, c2 + 1))
              else
                (if fp_less c_diff b_diff then (c0, c1 + 1, c2) else (c0, c1, c2 + 1)))
           else
             (if fp_less a_diff b_diff then
                (if fp_less a_diff c_diff then (c0 - 1, c1, c2) else (c0, c1, c2 - 1))
              else
                (if fp_less b_diff c_diff then (c0, c1 - 1, c2) else (c0, c1, c2 - 1))))"

text \<open>
  The \<^verbatim>\<open>while (1)\<close> loop. It has no bound in the source, so it is a partial
  function: \<open>None\<close> means that the loop never returns. The first component of the
  result counts the passes through the \<^verbatim>\<open>else\<close> branch.
\<close>

partial_function (option) adjust_loop ::
  "real \<Rightarrow> real \<Rightarrow> real \<Rightarrow> nat \<Rightarrow> coeffs \<Rightarrow> (nat \<times> coeffs) option" where
  "adjust_loop a b c n cs =
     (if total cs = 256 then Some (n, cs)
      else adjust_loop a b c (Suc n) (adjust a b c cs))"

declare adjust_loop.simps [code]

text \<open>
  The function returns the three weights, or does not return, or meets an
  undefined conversion in the initial assignment.
\<close>

definition convert_coeffs_to_max256 :: "real \<Rightarrow> real \<Rightarrow> real \<Rightarrow> (error + coeffs) option" where
  "convert_coeffs_to_max256 a b c =
     (case init_coeffs a b c of
        None \<Rightarrow> Some (Inl UndefinedConversion)
      | Some cs \<Rightarrow> map_option (\<lambda>r. Inr (snd r)) (adjust_loop a b c 0 cs))"

definition convert_iterations :: "real \<Rightarrow> real \<Rightarrow> real \<Rightarrow> (error + nat) option" where
  "convert_iterations a b c =
     (case init_coeffs a b c of
        None \<Rightarrow> Some (Inl UndefinedConversion)
      | Some cs \<Rightarrow> map_option (\<lambda>r. Inr (fst r)) (adjust_loop a b c 0 cs))"


text \<open>Every integer weight is less than 1 away from its ideal value \<open>256 * x / (a + b + c)\<close>.\<close>

definition near :: "real \<Rightarrow> real \<Rightarrow> real \<Rightarrow> coeffs \<Rightarrow> bool" where
  "near a b c cs =
     (case cs of (c0, c1, c2) \<Rightarrow>
        \<bar>real_of_int (uint c0) - 256 * a / (a + b + c)\<bar> < 1 \<and>
        \<bar>real_of_int (uint c1) - 256 * b / (a + b + c)\<bar> < 1 \<and>
        \<bar>real_of_int (uint c2) - 256 * c / (a + b + c)\<bar> < 1)"

subsection \<open>Square root: \<^verbatim>\<open>sqrtHeron\<close> of \<^verbatim>\<open>util.c\<close>\<close>

text \<open>
  The loop \<^verbatim>\<open>while (x != x0) { x0 = x; x = (x + (n / x)) / 2; }\<close>. It has no bound
  either; \<open>None\<close> means that it never exits.
\<close>

partial_function (option) heron_loop :: "real \<Rightarrow> real \<Rightarrow> real \<Rightarrow> real option" where
  "heron_loop n x x0 =
     (if x \<noteq> x0 then heron_loop n ((x + (n / x)) / 2) x else Some x)"

declare heron_loop.simps [code]

definition sqrtHeron :: "fp \<Rightarrow> fp option" where
  "sqrtHeron n =
     (case n of
        NaN \<Rightarrow> Some NaN
      | Inf \<Rightarrow> Some NaN
      | NInf \<Rightarrow> Some NaN
      | Fin v \<Rightarrow>
          if v < 0 then Some NaN
          else if v = 0 then Some (Fin 0)
          else map_option Fin (heron_loop v ((v + 1) / 2) 0))"

subsection \<open>The contrast stage shared by the three variants\<close>

text \<open>
  The three functions contain the same text for the rescale factor \<^verbatim>\<open>kstd\<close> and
  the offset \<^verbatim>\<open>summand\<close>. Here \<open>mean\<close> and \<open>var\<close> are finite; with exact
  arithmetic the quotient \<^verbatim>\<open>contrast / sqrtHeron(var)\<close> is NaN or infinite exactly
  when the divisor is NaN or zero, and the product \<^verbatim>\<open>(1 - kstd) * mean\<close> of finite
  values is finite.
\<close>

definition contrast_factors :: "real \<Rightarrow> real \<Rightarrow> real \<Rightarrow> (error + real \<times> real) option" where
  "contrast_factors contrast mean var =
     (if var \<noteq> 0 then
        (case sqrtHeron (Fin var) of
           None \<Rightarrow> None
         | Some (Fin s) \<Rightarrow>
             if s = 0 then Some (Inl ContrastComputationFailed)
             else (let kstd = contrast / s in Some (Inr (kstd, (1 - kstd) * mean)))
         | Some Inf \<Rightarrow> (let kstd = 0 in Some (Inr (kstd, (1 - kstd) * mean)))
         | Some NInf \<Rightarrow> (let kstd = 0 in Some (Inr (kstd, (1 - kstd) * mean)))
         | Some NaN \<Rightarrow> Some (Inl ContrastComputationFailed))
      else (let kstd = 0 in Some (Inr (kstd, (1 - kstd) * mean))))"

text \<open>\<^verbatim>\<open>var += (result[i] - mean) * (result[i] - mean)\<close> over the buffer.\<close>

definition variance_sum :: "uint8_t list \<Rightarrow> real \<Rightarrow> real" where
  "variance_sum result mean =
     sum_list (map (\<lambda>p. (real (unat p) - mean) * (real (unat p) - mean)) result)"

text \<open>The 256-entry table of \<^verbatim>\<open>brightness_contrast_V1\<close>, with \<^verbatim>\<open>float res\<close>.\<close>

definition lookup_V1 :: "real \<Rightarrow> real \<Rightarrow> uint8_t list" where
  "lookup_V1 kstd summand = map (\<lambda>i. clamp_u8 (kstd * real i + summand)) [0..<256]"

text \<open>
  The statistics and the remap of \<^verbatim>\<open>brightness_contrast_V1\<close> after its first
  loop, which leaves the buffer and the sum of its bytes in \<^verbatim>\<open>mean\<close>. For an
  empty image \<^verbatim>\<open>mean /= wh\<close> and \<^verbatim>\<open>var /= wh\<close> are 0.0/0 = NaN, the test
  \<^verbatim>\<open>var != 0.0\<close> holds, \<^verbatim>\<open>sqrtHeron\<close> returns NaN and \<^verbatim>\<open>isnan(kstd)\<close> makes the
  function return 0.
\<close>

definition V1_contrast :: "uint8_t list \<Rightarrow> real \<Rightarrow> nat \<Rightarrow> real \<Rightarrow> outcome" where
  "V1_contrast result mean wh contrast =
     (if wh = 0 then Some (Inl ContrastComputationFailed)
      else
        let mean = mean / real wh;
            var = variance_sum result mean / real wh
        in case contrast_factors contrast mean var of
             None \<Rightarrow> None
           | Some (Inl e) \<Rightarrow> Some (Inl e)
           | Some (Inr (kstd, summand)) \<Rightarrow>
               let lookup = lookup_V1 kstd summand
               in Some (Inr (map (\<lambda>p. lookup ! unat p) result)))"

subsection \<open>\<^verbatim>\<open>brightness_contrast_V1\<close>\<close>

text \<open>
  \<^verbatim>\<open>a * img[i * 3] + b * img[i * 3 + 1] + c * img[i * 3 + 2]\<close>: three \<^verbatim>\<open>float\<close>
  products, added from left to right.
\<close>

definition weighted :: "fp \<Rightarrow> fp \<Rightarrow> fp \<Rightarrow> uint8_t list \<Rightarrow> nat \<Rightarrow> fp" where
  "weighted a b c img i =
     fp_add f32
       (fp_add f32 (fp_mul f32 a (Fin (real (unat (img ! (i * 3))))))
                   (fp_mul f32 b (Fin (real (unat (img ! (i * 3 + 1)))))))
       (fp_mul f32 c (Fin (real (unat (img ! (i * 3 + 2))))))"

text \<open>Case 0 and the buffer of case 3: the grayscale value, cast without a guard.\<close>

definition V1_grey :: "fp \<Rightarrow> fp \<Rightarrow> fp \<Rightarrow> uint8_t list \<Rightarrow> nat \<Rightarrow> uint8_t list option" where
  "V1_grey a b c img wh = those (map (\<lambda>i. fcast_u8 (weighted a b c img i)) [0..<wh])"

text \<open>\<^verbatim>\<open>res += brightness\<close>, a \<^verbatim>\<open>float\<close> addition.\<close>

definition V1_add_brightness :: "fp \<Rightarrow> int16_t \<Rightarrow> fp" where
  "V1_add_brightness res brightness = fp_add f32 res (Fin (real_of_int (sint brightness)))"

text \<open>Case 1: brightness added to the floating value, then clamped.\<close>

definition V1_bright ::
  "fp \<Rightarrow> fp \<Rightarrow> fp \<Rightarrow> int16_t \<Rightarrow> uint8_t list \<Rightarrow> nat \<Rightarrow> uint8_t list option" where
  "V1_bright a b c brightness img wh =
     those (map (\<lambda>i. fclamp_u8 (V1_add_brightness (weighted a b c img i) brightness)) [0..<wh])"

text \<open>
  One pass of the loop of case 2: the byte stored in \<^verbatim>\<open>result[i]\<close> and the amount
  added to \<^verbatim>\<open>mean\<close> (nothing in the branch \<^verbatim>\<open>res < 0\<close>).
\<close>

definition V1_bright_step :: "fp \<Rightarrow> (uint8_t \<times> real) option" where
  "V1_bright_step res =
     (case res of
        Fin u \<Rightarrow>
          Some (if u > 255 then (255, 255)
                else if u < 0 then (0, 0)
                else (word_of_int (trunc u), real (unat (word_of_int (trunc u) :: uint8_t))))
      | Inf \<Rightarrow> Some (255, 255)
      | NInf \<Rightarrow> Some (0, 0)
      | NaN \<Rightarrow> None)"

definition brightness_contrast_V1 ::
  "uint8_t list \<Rightarrow> nat \<Rightarrow> nat \<Rightarrow> real \<Rightarrow> real \<Rightarrow> real \<Rightarrow> int16_t \<Rightarrow> real option \<Rightarrow> outcome" where
  "brightness_contrast_V1 img width height a b c brightness contrast =
     (let wh = width * height;
          sum = weight_sum a b c;
          a = fp_div f32 (Fin a) sum;
          b = fp_div f32 (Fin b) sum;
          c = fp_div f32 (Fin c) sum
      in case contrast of
           None \<Rightarrow>
             if brightness = 0 then
               (case V1_grey a b c img wh of
                  None \<Rightarrow> Some (Inl UndefinedConversion)
                | Some result \<Rightarrow> Some (Inr result))
             else
               (case V1_bright a b c brightness img wh of
                  None \<Rightarrow> Some (Inl UndefinedConversion)
                | Some result \<Rightarrow> Some (Inr result))
         | Some contrast \<Rightarrow>
             if brightness = 0 then
               (case V1_grey a b c img wh of
                  None \<Rightarrow> Some (Inl UndefinedConversion)
                | Some result \<Rightarrow>
                    V1_contrast result (sum_list (map (\<lambda>p. real (unat p)) result)) wh contrast)
             else
               (case those (map (\<lambda>i. V1_bright_step
                               (V1_add_brightness (weighted a b c img i) brightness)) [0..<wh]) of
                  None \<Rightarrow> Some (Inl UndefinedConversion)
                | Some steps \<Rightarrow>
                    V1_contrast (map fst steps) (sum_list (map snd steps)) wh contrast))"

subsection \<open>\<^verbatim>\<open>brightness_contrast_V2\<close>\<close>

text \<open>
  \<^verbatim>\<open>(a * img[i * 3] + b * img[i * 3 + 1] + c * img[i * 3 + 2]) / (a + b + c)\<close> with the
  weights as they were passed, cast without a guard.
\<close>

definition V2_grey :: "real \<Rightarrow> real \<Rightarrow> real \<Rightarrow> uint8_t list \<Rightarrow> nat \<Rightarrow> uint8_t list option" where
  "V2_grey a b c img wh =
     those (map (\<lambda>i. fcast_u8 (fp_div f32 (weighted (Fin a) (Fin b) (Fin c) img i)
                                         (weight_sum a b c))) [0..<wh])"

text \<open>\<^verbatim>\<open>res = result[i] + brightness\<close>: an integer sum, converted to \<^verbatim>\<open>float\<close>.\<close>

definition V2_bright :: "int16_t \<Rightarrow> uint8_t list \<Rightarrow> uint8_t list" where
  "V2_bright brightness result =
     map (\<lambda>p. clamp_u8 (real_of_int (uint p + sint brightness))) result"

definition V2_contrast :: "uint8_t list \<Rightarrow> nat \<Rightarrow> real \<Rightarrow> outcome" where
  "V2_contrast result wh contrast =
     (if wh = 0 then Some (Inl ContrastComputationFailed)
      else
        let mean = sum_list (map (\<lambda>p. real (unat p)) result) / real wh;
            var = variance_sum result mean / real wh
        in case contrast_factors contrast mean var of
             None \<Rightarrow> None
           | Some (Inl e) \<Rightarrow> Some (Inl e)
           | Some (Inr (kstd, summand)) \<Rightarrow>
               Some (Inr (map (\<lambda>p. clamp_u8 (kstd * real (unat p) + (1 - kstd) * mean)) result)))"

definition brightness_contrast_V2 ::
  "uint8_t list \<Rightarrow> nat \<Rightarrow> nat \<Rightarrow> real \<Rightarrow> real \<Rightarrow> real \<Rightarrow> int16_t \<Rightarrow> real option \<Rightarrow> outcome" where
  "brightness_contrast_V2 img width height a b c brightness contrast =
     (let wh = width * height
      in case V2_grey a b c img wh of
           None \<Rightarrow> Some (Inl UndefinedConversion)
         | Some result \<Rightarrow>
             (let result = (if brightness \<noteq> 0 then V2_bright brightness result else result)
              in (case contrast of
                    None \<Rightarrow> Some (Inr result)
                  | Some contrast \<Rightarrow> V2_contrast result wh contrast)))"

subsection \<open>The SSE intrinsics used by \<^verbatim>\<open>brightness_contrast_sse.c\<close>\<close>

text \<open>
  A 128-bit integer vector is the list of its 16 bytes, byte 0 first; the 16-bit
  lane \<open>k\<close> consists of the bytes \<open>2k\<close> (low) and \<open>2k + 1\<close> (high). A vector of
  four \<^verbatim>\<open>float\<close> lanes is a list of four reals.
\<close>

type_synonym m128i = "uint8_t list"
type_synonym m128 = "real list"

definition epi16 :: "uint8_t \<Rightarrow> uint8_t \<Rightarrow> 16 word" where
  "epi16 lo hi = push_bit 8 (ucast hi) OR ucast lo"

fun lanes16 :: "m128i \<Rightarrow> 16 word list" where
  "lanes16 (lo # hi # v) = epi16 lo hi # lanes16 v"
| "lanes16 v = []"

definition bytes16 :: "16 word list \<Rightarrow> m128i" where
  "bytes16 ws = concat (map (\<lambda>w. [ucast w, ucast (drop_bit 8 w)]) ws)"

definition mm_setzero_si128 :: m128i where
  "mm_setzero_si128 = replicate 16 0"

definition mm_set1_epi16 :: "16 word \<Rightarrow> m128i" where
  "mm_set1_epi16 w = bytes16 (replicate 8 w)"

definition mm_loadu_si128 :: "uint8_t list \<Rightarrow> nat \<Rightarrow> m128i" where
  "mm_loadu_si128 mem off = take 16 (drop off mem)"

text \<open>A mask byte with its top bit set yields 0, otherwise its low four bits select a byte.\<close>

definition mm_shuffle_epi8 :: "m128i \<Rightarrow> m128i \<Rightarrow> m128i" where
  "mm_shuffle_epi8 a b = map (\<lambda>m. if bit m 7 then 0 else a ! unat (m AND 15)) b"

definition mm_or_si128 :: "m128i \<Rightarrow> m128i \<Rightarrow> m128i" where
  "mm_or_si128 a b = map2 (OR) a b"

definition mm_mullo_epi16 :: "m128i \<Rightarrow> m128i \<Rightarrow> m128i" where
  "mm_mullo_epi16 a b = bytes16 (map2 (*) (lanes16 a) (lanes16 b))"

definition mm_add_epi16 :: "m128i \<Rightarrow> m128i \<Rightarrow> m128i" where
  "mm_add_epi16 a b = bytes16 (map2 (+) (lanes16 a) (lanes16 b))"

definition mm_srli_epi16 :: "m128i \<Rightarrow> nat \<Rightarrow> m128i" where
  "mm_srli_epi16 a n = bytes16 (map (drop_bit n) (lanes16 a))"

definition mm_min_epi16 :: "m128i \<Rightarrow> m128i \<Rightarrow> m128i" where
  "mm_min_epi16 a b =
     bytes16 (map2 (\<lambda>x y. if sint x < sint y then x else y) (lanes16 a) (lanes16 b))"

definition mm_max_epi16 :: "m128i \<Rightarrow> m128i \<Rightarrow> m128i" where
  "mm_max_epi16 a b =
     bytes16 (map2 (\<lambda>x y. if sint x > sint y then x else y) (lanes16 a) (lanes16 b))"

text \<open>Shift of the whole vector by \<open>n\<close> bytes towards byte 0, filling with zeros.\<close>

definition mm_srli_si128 :: "m128i \<Rightarrow> nat \<Rightarrow> m128i" where
  "mm_srli_si128 a n = drop n a @ replicate n 0"

text \<open>The selected 16-bit lane, zero-extended to \<^verbatim>\<open>int\<close>.\<close>

definition mm_extract_epi16 :: "m128i \<Rightarrow> nat \<Rightarrow> int" where
  "mm_extract_epi16 a k = uint (lanes16 a ! k)"

text \<open>
  \<^verbatim>\<open>_mm_cvtepi32_ps(_mm_cvtepu8_epi32(pixels))\<close>: the four lowest bytes, zero-extended
  to 32 bits and converted to \<^verbatim>\<open>float\<close>.
\<close>

definition mm_cvtepu8_epi32 :: "m128i \<Rightarrow> 32 word list" where
  "mm_cvtepu8_epi32 a = map ucast (take 4 a)"

definition mm_cvtepi32_ps :: "32 word list \<Rightarrow> m128" where
  "mm_cvtepi32_ps a = map (\<lambda>w. real_of_int (sint w)) a"

definition mm_set1_ps :: "real \<Rightarrow> m128" where
  "mm_set1_ps x = replicate 4 x"

definition mm_add_ps :: "m128 \<Rightarrow> m128 \<Rightarrow> m128" where
  "mm_add_ps a b = map2 (+) a b"

definition mm_mul_ps :: "m128 \<Rightarrow> m128 \<Rightarrow> m128" where
  "mm_mul_ps a b = map2 (*) a b"

definition mm_hadd_ps :: "m128 \<Rightarrow> m128 \<Rightarrow> m128" where
  "mm_hadd_ps a b = [a ! 0 + a ! 1, a ! 2 + a ! 3, b ! 0 + b ! 1, b ! 2 + b ! 3]"

definition mm_cvtss_f32 :: "m128 \<Rightarrow> real" where
  "mm_cvtss_f32 a = a ! 0"

subsection \<open>\<^verbatim>\<open>sum_mm_epi16\<close> and \<^verbatim>\<open>load_and_convert_to_grey16\<close>\<close>

definition sum_mm_epi16 :: "m128i \<Rightarrow> int" where
  "sum_mm_epi16 vector =
     (let sum1 = mm_add_epi16 vector (mm_srli_si128 vector 8);
          sum2 = mm_add_epi16 sum1 (mm_srli_si128 sum1 4);
          sum3 = mm_add_epi16 sum2 (mm_srli_si128 sum2 2)
      in mm_extract_epi16 sum3 0)"

definition load_and_convert_to_grey16 ::
  "uint8_t list \<Rightarrow> nat \<Rightarrow> m128i \<Rightarrow> m128i \<Rightarrow> m128i \<Rightarrow> m128i \<Rightarrow> m128i \<Rightarrow> m128i \<Rightarrow> m128i \<Rightarrow> m128i
     \<Rightarrow> m128i \<Rightarrow> m128i \<Rightarrow> m128i \<Rightarrow> m128i \<Rightarrow> m128i \<Rightarrow> m128i \<Rightarrow> m128i \<Rightarrow> m128i \<times> m128i" where
  "load_and_convert_to_grey16 img i
       mask_red mask_red2 mask_red3 mask_red4
       mask_green mask_green2 mask_green3 mask_green4
       mask_blue mask_blue2 mask_blue3 mask_blue4
       a_coeff b_coeff c_coeff =
     (let pixels1 = mm_loadu_si128 img (3 * i);
          pixels2 = mm_loadu_si128 img (3 * i + 16);
          pixels3 = mm_loadu_si128 img (3 * i + 32);
          red1 = mm_or_si128 (mm_shuffle_epi8 pixels1 mask_red) (mm_shuffle_epi8 pixels2 mask_red2);
          red2 = mm_or_si128 (mm_shuffle_epi8 pixels2 mask_red3) (mm_shuffle_epi8 pixels3 mask_red4);
          green1 = mm_or_si128 (mm_shuffle_epi8 pixels1 mask_green) (mm_shuffle_epi8 pixels2 mask_green2);
          green2 = mm_or_si128 (mm_shuffle_epi8 pixels2 mask_green3) (mm_shuffle_epi8 pixels3 mask_green4);
          blue1 = mm_or_si128 (mm_shuffle_epi8 pixels1 mask_blue) (mm_shuffle_epi8 pixels2 mask_blue2);
          blue2 = mm_or_si128 (mm_shuffle_epi8 pixels2 mask_blue3) (mm_shuffle_epi8 pixels3 mask_blue4);
          red1 = mm_mullo_epi16 red1 a_coeff;
          green1 = mm_mullo_epi16 green1 b_coeff;
          blue1 = mm_mullo_epi16 blue1 c_coeff;
          red2 = mm_mullo_epi16 red2 a_coeff;
          green2 = mm_mullo_epi16 green2 b_coeff;
          blue2 = mm_mullo_epi16 blue2 c_coeff
      in (mm_srli_epi16 (mm_add_epi16 (mm_add_epi16 red1 green1) blue1) 8,
          mm_srli_epi16 (mm_add_epi16 (mm_add_epi16 red2 green2) blue2) 8))"

subsection \<open>\<^verbatim>\<open>brightness_contrast_V0\<close>\<close>

text \<open>The shuffle masks, as \<^verbatim>\<open>_mm_setr_epi8\<close> lists them (byte 0 first).\<close>

definition mask_red1 :: m128i where
  "mask_red1 = [0, -1, 3, -1, 6, -1, 9, -1, 12, -1, 15, -1, -1, -1, -1, -1]"
definition mask_green1 :: m128i where
  "mask_green1 = [1, -1, 4, -1, 7, -1, 10, -1, 13, -1, -1, -1, -1, -1, -1, -1]"
definition mask_blue1 :: m128i where
  "mask_blue1 = [2, -1, 5, -1, 8, -1, 11, -1, 14, -1, -1, -1, -1, -1, -1, -1]"

definition mask_red2 :: m128i where
  "mask_red2 = [-1, -1, -1, -1, -1, -1, -1, -1, -1, -1, -1, -1, 2, -1, 5, -1]"
definition mask_green2 :: m128i where
  "mask_green2 = [-1, -1, -1, -1, -1, -1, -1, -1, -1, -1, 0, -1, 3, -1, 6, -1]"
definition mask_blue2 :: m128i where
  "mask_blue2 = [-1, -1, -1, -1, -1, -1, -1, -1, -1, -1, 1, -1, 4, -1, 7, -1]"

definition mask_red3 :: m128i where
  "mask_red3 = [8, -1, 11, -1, 14, -1, -1, -1, -1, -1, -1, -1, -1, -1, -1, -1]"
definition mask_green3 :: m128i where
  "mask_green3 = [9, -1, 12, -1, 15, -1, -1, -1, -1, -1, -1, -1, -1, -1, -1, -1]"
definition mask_blue3 :: m128i where
  "mask_blue3 = [10, -1, 13, -1, -1, -1, -1, -1, -1, -1, -1, -1, -1, -1, -1, -1]"

definition mask_red4 :: m128i where
  "mask_red4 = [-1, -1, -1, -1, -1, -1, 1, -1, 4, -1, 7, -1, 10, -1, 13, -1]"
definition mask_green4 :: m128i where
  "mask_green4 = [-1, -1, -1, -1, -1, -1, 2, -1, 5, -1, 8, -1, 11, -1, 14, -1]"
definition mask_blue4 :: m128i where
  "mask_blue4 = [-1, -1, -1, -1, 0, -1, 3, -1, 6, -1, 9, -1, 12, -1, 15, -1]"

definition mask_grey :: m128i where
  "mask_grey = [0, 2, 4, 6, 8, 10, 12, 14, -1, -1, -1, -1, -1, -1, -1, -1]"
definition mask_grey2 :: m128i where
  "mask_grey2 = [-1, -1, -1, -1, -1, -1, -1, -1, 0, 2, 4, 6, 8, 10, 12, 14]"

text \<open>
  The values of \<open>i\<close> in \<^verbatim>\<open>for (i = 0; i < wh - (wh % 16); i += 16)\<close> and in
  \<^verbatim>\<open>for (i = wh - (wh % 16); i < wh; i++)\<close>.
\<close>

definition simd_indices :: "nat \<Rightarrow> nat list" where
  "simd_indices wh = map (\<lambda>k. 16 * k) [0..<(wh - wh mod 16) div 16]"

definition rest_indices :: "nat \<Rightarrow> nat list" where
  "rest_indices wh = [wh - wh mod 16..<wh]"

text \<open>The call of \<^verbatim>\<open>load_and_convert_to_grey16\<close> that opens every vector loop.\<close>

definition V0_grey16 :: "uint8_t list \<Rightarrow> coeffs \<Rightarrow> nat \<Rightarrow> m128i \<times> m128i" where
  "V0_grey16 img cs i =
     (case cs of (c0, c1, c2) \<Rightarrow>
        load_and_convert_to_grey16 img i
          mask_red1 mask_red2 mask_red3 mask_red4
          mask_green1 mask_green2 mask_green3 mask_green4
          mask_blue1 mask_blue2 mask_blue3 mask_blue4
          (mm_set1_epi16 c0) (mm_set1_epi16 c1) (mm_set1_epi16 c2))"

text \<open>The same followed by the addition of the brightness and the clamp to [0,255].\<close>

definition V0_grey16_bright :: "uint8_t list \<Rightarrow> coeffs \<Rightarrow> int16_t \<Rightarrow> nat \<Rightarrow> m128i \<times> m128i" where
  "V0_grey16_bright img cs brightness i =
     (let zero = mm_setzero_si128;
          max = mm_set1_epi16 255;
          brightness_vector = mm_set1_epi16 brightness;
          (grey1, grey2) = V0_grey16 img cs i;
          grey1 = mm_add_epi16 grey1 brightness_vector;
          grey2 = mm_add_epi16 grey2 brightness_vector;
          grey1 = mm_min_epi16 max grey1;
          grey1 = mm_max_epi16 zero grey1;
          grey2 = mm_min_epi16 max grey2;
          grey2 = mm_max_epi16 zero grey2
      in (grey1, grey2))"

text \<open>Combining the two halves into the 16 bytes stored at \<^verbatim>\<open>result + i\<close>.\<close>

definition V0_pack :: "m128i \<times> m128i \<Rightarrow> m128i" where
  "V0_pack g =
     (case g of (grey1, grey2) \<Rightarrow>
        mm_or_si128 (mm_shuffle_epi8 grey1 mask_grey) (mm_shuffle_epi8 grey2 mask_grey2))"

text \<open>
  The scalar value of the remainder loops,
  \<^verbatim>\<open>res = (coeffs[0] * img[i * 3] + coeffs[1] * img[i * 3 + 1] + coeffs[2] * img[i * 3 + 2]) / 256\<close>,
  computed in \<^verbatim>\<open>int\<close> and stored in an \<^verbatim>\<open>int16_t\<close>.
\<close>

definition V0_rest :: "uint8_t list \<Rightarrow> coeffs \<Rightarrow> nat \<Rightarrow> int16_t" where
  "V0_rest img cs i =
     (case cs of (c0, c1, c2) \<Rightarrow>
        word_of_int ((uint c0 * uint (img ! (i * 3)) + uint c1 * uint (img ! (i * 3 + 1))
                      + uint c2 * uint (img ! (i * 3 + 2))) div 256))"

text \<open>
  The vector loop of the two contrast cases: the lane sums are gathered in
  \<^verbatim>\<open>mean_vector\<close> and moved into \<^verbatim>\<open>mean\<close> whenever \<^verbatim>\<open>i % 128 == 0\<close>.
\<close>

definition V0_accumulate :: "m128i \<Rightarrow> m128i \<times> m128i \<Rightarrow> m128i" where
  "V0_accumulate mean_vector g =
     (case g of (grey1, grey2) \<Rightarrow> mm_add_epi16 (mm_add_epi16 mean_vector grey1) grey2)"

fun V0_mean_loop ::
  "(nat \<Rightarrow> m128i \<times> m128i) \<Rightarrow> nat list \<Rightarrow> m128i \<Rightarrow> real \<Rightarrow> uint8_t list
     \<Rightarrow> m128i \<times> real \<times> uint8_t list" where
  "V0_mean_loop grey [] mean_vector mean result = (mean_vector, mean, result)"
| "V0_mean_loop grey (i # is) mean_vector mean result =
     (let mean_vector = V0_accumulate mean_vector (grey i)
      in if i mod 128 = 0 then
           V0_mean_loop grey is mm_setzero_si128
             (mean + real_of_int (sum_mm_epi16 mean_vector)) (result @ V0_pack (grey i))
         else
           V0_mean_loop grey is mean_vector mean (result @ V0_pack (grey i)))"

text \<open>The remainder loops of the contrast cases: the byte stored and the amount added to \<^verbatim>\<open>mean\<close>.\<close>

definition V0_rest_step :: "int16_t \<Rightarrow> uint8_t \<times> real" where
  "V0_rest_step res = (ucast res, real_of_int (sint res))"

definition V0_rest_bright_step :: "int16_t \<Rightarrow> uint8_t \<times> real" where
  "V0_rest_bright_step res =
     (if sint res > 255 then (255, 255)
      else if sint res < 0 then (0, 0)
      else (ucast res, real_of_int (sint res)))"

text \<open>The variance: four \<^verbatim>\<open>float\<close> lanes over the full blocks, scalar code for the rest.\<close>

fun V0_var_inner :: "nat \<Rightarrow> m128i \<Rightarrow> m128 \<Rightarrow> m128 \<Rightarrow> m128" where
  "V0_var_inner 0 pixels neg_mean_vec var_vec = var_vec"
| "V0_var_inner (Suc j) pixels neg_mean_vec var_vec =
     (let pix_flt = mm_cvtepi32_ps (mm_cvtepu8_epi32 pixels);
          acc = mm_add_ps pix_flt neg_mean_vec;
          acc = mm_mul_ps acc acc;
          var_vec = mm_add_ps var_vec acc;
          pixels = mm_srli_si128 pixels 4
      in V0_var_inner j pixels neg_mean_vec var_vec)"

fun V0_var_loop :: "uint8_t list \<Rightarrow> nat list \<Rightarrow> m128 \<Rightarrow> m128 \<Rightarrow> m128" where
  "V0_var_loop result [] neg_mean_vec var_vec = var_vec"
| "V0_var_loop result (i # is) neg_mean_vec var_vec =
     V0_var_loop result is neg_mean_vec
       (V0_var_inner 4 (mm_loadu_si128 result i) neg_mean_vec var_vec)"

definition V0_variance :: "uint8_t list \<Rightarrow> nat \<Rightarrow> real \<Rightarrow> real" where
  "V0_variance result wh mean =
     (let neg_mean_vec = mm_set1_ps (- 1 * mean);
          var_vec = V0_var_loop result (simd_indices wh) neg_mean_vec (mm_set1_ps 0);
          var_vec = mm_hadd_ps var_vec var_vec;
          var_vec = mm_hadd_ps var_vec var_vec;
          var = mm_cvtss_f32 var_vec;
          var = var + sum_list (map (\<lambda>i. (real (unat (result ! i)) - mean)
                                          * (real (unat (result ! i)) - mean)) (rest_indices wh))
      in var / real wh)"

text \<open>
  The table of \<^verbatim>\<open>brightness_contrast_V0\<close>: there \<^verbatim>\<open>res\<close> is the \<^verbatim>\<open>int16_t\<close>
  variable of the remainder loops, so \<^verbatim>\<open>res = kstd * i + summand\<close> converts the
  floating value to \<^verbatim>\<open>int16_t\<close> before the clamp.
\<close>

definition lookup_V0 :: "real \<Rightarrow> real \<Rightarrow> uint8_t list option" where
  "lookup_V0 kstd summand =
     those (map (\<lambda>i. map_option clamp_i16 (cast_i16 (kstd * real i + summand))) [0..<256])"

definition V0_contrast :: "uint8_t list \<Rightarrow> real \<Rightarrow> nat \<Rightarrow> real \<Rightarrow> outcome" where
  "V0_contrast result mean wh contrast =
     (if wh = 0 then Some (Inl ContrastComputationFailed)
      else
        let mean = mean / real wh;
            var = V0_variance result wh mean
        in case contrast_factors contrast mean var of
             None \<Rightarrow> None
           | Some (Inl e) \<Rightarrow> Some (Inl e)
           | Some (Inr (kstd, summand)) \<Rightarrow>
               (case lookup_V0 kstd summand of
                  None \<Rightarrow> Some (Inl UndefinedConversion)
                | Some lookup \<Rightarrow> Some (Inr (map (\<lambda>p. lookup ! unat p) result))))"

text \<open>The buffer and the accumulated \<^verbatim>\<open>mean\<close> before \<^verbatim>\<open>mean /= wh\<close>.\<close>

definition V0_stats ::
  "(nat \<Rightarrow> m128i \<times> m128i) \<Rightarrow> (nat \<Rightarrow> uint8_t \<times> real) \<Rightarrow> nat \<Rightarrow> uint8_t list \<times> real" where
  "V0_stats grey rest wh =
     (case V0_mean_loop grey (simd_indices wh) mm_setzero_si128 0 [] of
        (mean_vector, mean, result) \<Rightarrow>
          let mean = mean + real_of_int (sum_mm_epi16 mean_vector);
              steps = map rest (rest_indices wh)
          in (result @ map fst steps, mean + sum_list (map snd steps)))"

definition brightness_contrast_V0 ::
  "uint8_t list \<Rightarrow> nat \<Rightarrow> nat \<Rightarrow> real \<Rightarrow> real \<Rightarrow> real \<Rightarrow> int16_t \<Rightarrow> real option \<Rightarrow> outcome" where
  "brightness_contrast_V0 img width height a b c brightness contrast =
     (let wh = width * height
      in case convert_coeffs_to_max256 a b c of
           None \<Rightarrow> None
         | Some (Inl e) \<Rightarrow> Some (Inl e)
         | Some (Inr coeffs) \<Rightarrow>
             (case contrast of
                None \<Rightarrow>
                  if brightness = 0 then
                    Some (Inr (concat (map (\<lambda>i. V0_pack (V0_grey16 img coeffs i)) (simd_indices wh))
                               @ map (\<lambda>i. ucast (V0_rest img coeffs i)) (rest_indices wh)))
                  else
                    Some (Inr (concat (map (\<lambda>i. V0_pack (V0_grey16_bright img coeffs brightness i))
                                         (simd_indices wh))
                               @ map (\<lambda>i. clamp_i16 (V0_rest img coeffs i + brightness))
                                   (rest_indices wh)))
              | Some contrast \<Rightarrow>
                  (case (if brightness = 0 then
                           V0_stats (V0_grey16 img coeffs)
                             (\<lambda>i. V0_rest_step (V0_rest img coeffs i)) wh
                         else
                           V0_stats (V0_grey16_bright img coeffs brightness)
                             (\<lambda>i. V0_rest_bright_step (V0_rest img coeffs i + brightness)) wh) of
                     (result, mean) \<Rightarrow> V0_contrast result mean wh contrast)))"

subsection \<open>Agreement of two output buffers\<close>

text \<open>Two buffers have the same length and differ by at most 1 at every index.\<close>

definition within1 :: "uint8_t list \<Rightarrow> uint8_t list \<Rightarrow> bool" where
  "within1 xs ys = list_all2 (\<lambda>x y. \<bar>uint x - uint y\<bar> \<le> 1) xs ys"

subsection \<open>Notions used in the statements and proofs\<close>

text \<open>The image as a list of pixels \<open>(r, g, b)\<close>.\<close>

fun triples :: "'a list \<Rightarrow> ('a \<times> 'a \<times> 'a) list" where
  "triples (r # g # b # xs) = (r, g, b) # triples xs"
| "triples [] = []"
| "triples [r] = []"
| "triples [r, g] = []"

text \<open>The weighted sum of one pixel with real weights.\<close>

definition mix :: "real \<Rightarrow> real \<Rightarrow> real \<Rightarrow> uint8_t \<times> uint8_t \<times> uint8_t \<Rightarrow> real" where
  "mix a b c p = (case p of (r, g, b') \<Rightarrow> a * real (unat r) + b * real (unat g) + c * real (unat b'))"

text \<open>The weighted sum of one pixel with the integer weights, and its quotient by 256.\<close>

definition weighted_int :: "coeffs \<Rightarrow> uint8_t \<Rightarrow> uint8_t \<Rightarrow> uint8_t \<Rightarrow> int" where
  "weighted_int cs r g b =
     (case cs of (c0, c1, c2) \<Rightarrow> uint c0 * uint r + uint c1 * uint g + uint c2 * uint b)"

definition grey_int :: "coeffs \<Rightarrow> uint8_t \<times> uint8_t \<times> uint8_t \<Rightarrow> int" where
  "grey_int cs p = (case p of (r, g, b) \<Rightarrow> weighted_int cs r g b div 256)"

text \<open>One 16-bit lane of \<^verbatim>\<open>load_and_convert_to_grey16\<close>, with wrap-around.\<close>

definition grey_lane :: "coeffs \<Rightarrow> uint8_t \<Rightarrow> uint8_t \<Rightarrow> uint8_t \<Rightarrow> 16 word" where
  "grey_lane cs r g b =
     (case cs of (c0, c1, c2) \<Rightarrow> drop_bit 8 (ucast r * c0 + ucast g * c1 + ucast b * c2))"

text \<open>One lane of \<^verbatim>\<open>_mm_max_epi16(zero, _mm_min_epi16(max, x))\<close>.\<close>

definition clamp_lane :: "16 word \<Rightarrow> 16 word" where
  "clamp_lane x =
     (let y = (if sint (255 :: 16 word) < sint x then 255 else x)
      in if sint (0 :: 16 word) > sint y then 0 else y)"

text \<open>The clamp of the specification, \<open>clamp(x, 0, 255)\<close>, on integers.\<close>

definition clamp_int :: "int \<Rightarrow> int" where
  "clamp_int k = max 0 (min 255 k)"

text \<open>The sum of the 16-bit lanes, and of the bytes of a buffer, as integers.\<close>

definition lsum :: "16 word list \<Rightarrow> int" where
  "lsum ws = sum_list (map uint ws)"

definition bsum :: "uint8_t list \<Rightarrow> int" where
  "bsum ps = sum_list (map uint ps)"

text \<open>A pair of vectors whose sixteen 16-bit lanes all hold a value of at most 255.\<close>

definition good :: "m128i \<times> m128i \<Rightarrow> bool" where
  "good g = (\<exists>ws vs. g = (bytes16 ws, bytes16 vs) \<and> length ws = 8 \<and> length vs = 8
              \<and> list_all (\<lambda>w. uint w \<le> 255) ws \<and> list_all (\<lambda>w. uint w \<le> 255) vs)"

text \<open>
  The values that \<^verbatim>\<open>mean_vector\<close> takes in the vector loop of the contrast cases,
  one for every pass, read after the two additions and before the test
  \<^verbatim>\<open>i % 128 == 0\<close>.
\<close>

fun V0_mean_vectors :: "(nat \<Rightarrow> m128i \<times> m128i) \<Rightarrow> nat list \<Rightarrow> m128i \<Rightarrow> m128i list" where
  "V0_mean_vectors grey [] mean_vector = []"
| "V0_mean_vectors grey (i # is) mean_vector =
     (let mean_vector = V0_accumulate mean_vector (grey i)
      in mean_vector # V0_mean_vectors grey is
           (if i mod 128 = 0 then mm_setzero_si128 else mean_vector))"

text \<open>Every lane, read as a signed 16-bit number, lies between 0 and 4080.\<close>

definition lanes_in_range :: "m128i \<Rightarrow> bool" where
  "lanes_in_range v = list_all (\<lambda>w. 0 \<le> sint w \<and> sint w \<le> 4080) (lanes16 v)"


section \<open>Properties\<close>

subsection \<open>Rounding\<close>

lemma rne_int: "rne (real_of_int n) = n"
  by (simp add: rne_def)

lemma rne_err: "\<bar>real_of_int (rne y) - y\<bar> \<le> 1 / 2"
  unfolding rne_def Let_def by (auto; linarith)

lemma rne_bounds: "\<lfloor>y\<rfloor> \<le> rne y" "rne y \<le> \<lfloor>y\<rfloor> + 1"
  unfolding rne_def Let_def by auto

lemma rne_mono:
  assumes "x \<le> y"
  shows "rne x \<le> rne y"
proof (cases "\<lfloor>x\<rfloor> = \<lfloor>y\<rfloor>")
  case True
  have "x - real_of_int \<lfloor>y\<rfloor> \<le> y - real_of_int \<lfloor>y\<rfloor>"
    using assms by simp
  then show ?thesis
    unfolding rne_def Let_def True by auto
next
  case False
  have "\<lfloor>x\<rfloor> \<le> \<lfloor>y\<rfloor>" using assms by (rule floor_mono)
  then have "\<lfloor>x\<rfloor> + 1 \<le> \<lfloor>y\<rfloor>" using False by simp
  then show ?thesis
    using rne_bounds(2)[of x] rne_bounds(1)[of y] by linarith
qed

lemma rne_neg: "rne (- y) = - rne y"
proof (cases "y = real_of_int \<lfloor>y\<rfloor>")
  case True
  then obtain n where n: "y = real_of_int n" ..
  have "rne (real_of_int (- n)) = - n" by (rule rne_int)
  then show ?thesis by (simp add: n rne_int)
next
  case False
  then have f: "\<lfloor>- y\<rfloor> = - \<lfloor>y\<rfloor> - 1"
    by linarith
  have d: "- y - real_of_int (- \<lfloor>y\<rfloor> - 1) = 1 - (y - real_of_int \<lfloor>y\<rfloor>)"
    by simp
  show ?thesis
    unfolding rne_def Let_def f d by auto
qed


lemma pow2_pos: "0 < (2 :: real) powi k"
  by (simp add: zero_less_power_int)

lemma pow2_mono: "k \<le> l \<Longrightarrow> (2 :: real) powi k \<le> 2 powi l"
  by (rule power_int_increasing) simp_all

lemma pow2_add: "(2 :: real) powi (k + l) = 2 powi k * 2 powi l"
  by (rule power_int_add) simp

lemma pow2_diff: "(2 :: real) powi (k - l) = 2 powi k / 2 powi l"
  by (rule power_int_diff) simp

lemma pow2_Suc: "(2 :: real) powi (k + 1) = 2 * 2 powi k"
  by (simp add: pow2_add)

lemma expo_ge: "emin \<le> expo p emin x"
  by (simp add: expo_def)

lemma expo_upper: "\<bar>x\<bar> < 2 powi (expo p emin x + 1)"
proof -
  define s where "s = p - 1 - emin"
  define N where "N = \<lfloor>\<bar>x\<bar> * 2 powi s\<rfloor>"
  define b where "b = bitlen N"
  have E: "expo p emin x = max emin (b - 1 - s)"
    by (simp add: expo_def s_def N_def b_def)
  have N0: "0 \<le> N"
    unfolding N_def using pow2_pos[of s] by simp
  have lt: "\<bar>x\<bar> * 2 powi s < real_of_int N + 1"
    unfolding N_def by linarith
  have "real_of_int N + 1 \<le> 2 powi b"
  proof (cases "N = 0")
    case True
    then show ?thesis by (simp add: b_def)
  next
    case False
    then have "0 < N" using N0 by simp
    then have "N < 2 ^ nat b"
      unfolding b_def using bitlen_bounds[of N] by simp
    then have "N + 1 \<le> 2 ^ nat b" by simp
    then have "real_of_int (N + 1) \<le> real_of_int (2 ^ nat b)"
      by (simp only: of_int_le_iff)
    moreover have "0 \<le> b" by (simp add: b_def bitlen_nonneg)
    ultimately show ?thesis
      by (simp add: power_int_nonneg_exp)
  qed
  then have "\<bar>x\<bar> * 2 powi s < 2 powi b"
    using lt by linarith
  then have "\<bar>x\<bar> < 2 powi b / 2 powi s"
    using pow2_pos[of s] by (simp add: pos_less_divide_eq)
  then have "\<bar>x\<bar> < 2 powi (b - s)"
    by (simp only: pow2_diff)
  moreover have "(2 :: real) powi (b - s) \<le> 2 powi (expo p emin x + 1)"
    by (rule pow2_mono) (simp add: E)
  ultimately show ?thesis by linarith
qed

lemma expo_lower:
  assumes "emin < expo p emin x" "1 \<le> p"
  shows "2 powi (expo p emin x) \<le> \<bar>x\<bar>"
proof -
  define s where "s = p - 1 - emin"
  define N where "N = \<lfloor>\<bar>x\<bar> * 2 powi s\<rfloor>"
  define b where "b = bitlen N"
  have E: "expo p emin x = max emin (b - 1 - s)"
    by (simp add: expo_def s_def N_def b_def)
  then have e: "expo p emin x = b - 1 - s"
    using assms(1) by simp
  have N0: "0 \<le> N"
    unfolding N_def using pow2_pos[of s] by simp
  have "N \<noteq> 0"
  proof
    assume "N = 0"
    then have "b = 0" by (simp add: b_def)
    then show False
      using assms e by (simp add: s_def)
  qed
  then have pos: "0 < N" using N0 by simp
  then have b1: "1 \<le> b"
    unfolding b_def using bitlen_eq_zero_iff[of N] bitlen_nonneg[of N] by linarith
  have "2 ^ nat (b - 1) \<le> N"
    unfolding b_def using bitlen_bounds[OF pos] by simp
  then have "real_of_int (2 ^ nat (b - 1)) \<le> real_of_int N"
    by (simp only: of_int_le_iff)
  then have "2 powi (b - 1) \<le> real_of_int N"
    using b1 by (simp add: power_int_nonneg_exp)
  also have "\<dots> \<le> \<bar>x\<bar> * 2 powi s"
    unfolding N_def by linarith
  finally have "2 powi (b - 1) / 2 powi s \<le> \<bar>x\<bar>"
    using pow2_pos[of s] by (simp add: pos_divide_le_eq)
  then show ?thesis
    by (simp only: e pow2_diff[symmetric])
qed

lemma expo_eqI:
  assumes "2 powi e \<le> \<bar>x\<bar>" "\<bar>x\<bar> < 2 powi (e + 1)" "emin \<le> e" "1 \<le> p"
  shows "expo p emin x = e"
proof (rule antisym)
  show "expo p emin x \<le> e"
  proof (rule ccontr)
    assume "\<not> expo p emin x \<le> e"
    then have l: "e + 1 \<le> expo p emin x" by simp
    then have "emin < expo p emin x" using assms(3) by simp
    then have "2 powi (expo p emin x) \<le> \<bar>x\<bar>"
      by (rule expo_lower[OF _ assms(4)])
    moreover have "(2 :: real) powi (e + 1) \<le> 2 powi (expo p emin x)"
      by (rule pow2_mono[OF l])
    ultimately show False using assms(2) by linarith
  qed
  show "e \<le> expo p emin x"
  proof (rule ccontr)
    assume "\<not> e \<le> expo p emin x"
    then have l: "expo p emin x + 1 \<le> e" by simp
    have "(2 :: real) powi (expo p emin x + 1) \<le> 2 powi e"
      by (rule pow2_mono[OF l])
    then show False
      using expo_upper[of x p emin] assms(1) by linarith
  qed
qed

lemma expo_small:
  assumes "\<bar>x\<bar> < 2 powi emin" "1 \<le> p"
  shows "expo p emin x = emin"
proof (rule ccontr)
  assume "expo p emin x \<noteq> emin"
  then have l: "emin < expo p emin x"
    using expo_ge[of emin p x] by simp
  then have "2 powi (expo p emin x) \<le> \<bar>x\<bar>"
    by (rule expo_lower[OF _ assms(2)])
  moreover have "(2 :: real) powi emin \<le> 2 powi (expo p emin x)"
    by (rule pow2_mono) (use l in simp)
  ultimately show False using assms(1) by linarith
qed


lemma ulp_pos: "0 < ulp p emin x"
  by (simp add: ulp_def pow2_pos)

lemma rnd_err: "\<bar>rnd p emin x - x\<bar> \<le> ulp p emin x / 2"
proof -
  let ?u = "ulp p emin x"
  have u: "0 < ?u" by (rule ulp_pos)
  have "rnd p emin x - x = ?u * (real_of_int (rne (x / ?u)) - x / ?u)"
    using u by (simp add: rnd_def algebra_simps)
  then have "\<bar>rnd p emin x - x\<bar> = ?u * \<bar>real_of_int (rne (x / ?u)) - x / ?u\<bar>"
    using u by (simp add: abs_mult)
  also have "\<dots> \<le> ?u * (1 / 2)"
    using u rne_err[of "x / ?u"] by (intro mult_left_mono) simp_all
  finally show ?thesis by simp
qed

lemma rnd_zero: "rnd p emin 0 = 0"
  using rne_int[of 0] by (simp add: rnd_def)

lemma expo_neg: "expo p emin (- x) = expo p emin x"
  by (simp add: expo_def)

lemma rnd_neg: "rnd p emin (- x) = - rnd p emin x"
  by (simp add: rnd_def ulp_def expo_neg rne_neg)

lemma rnd_nonneg:
  assumes "0 \<le> x"
  shows "0 \<le> rnd p emin x"
proof -
  have "0 \<le> x / ulp p emin x"
    using assms ulp_pos[of p emin x] by simp
  then have "0 \<le> \<lfloor>x / ulp p emin x\<rfloor>" by simp
  then have "0 \<le> rne (x / ulp p emin x)"
    using rne_bounds(1)[of "x / ulp p emin x"] by linarith
  then show ?thesis
    using ulp_pos[of p emin x] by (simp add: rnd_def)
qed

lemma rnd_grid:
  assumes "x / ulp p emin x = real_of_int m"
  shows "rnd p emin x = x"
proof -
  have "rnd p emin x = ulp p emin x * (x / ulp p emin x)"
    by (simp only: rnd_def assms rne_int)
  then show ?thesis
    using ulp_pos[of p emin x] by simp
qed

lemma pow2_less_imp: "(2 :: real) powi k < 2 powi l \<Longrightarrow> k < l"
proof (rule ccontr)
  assume a: "(2 :: real) powi k < 2 powi l" "\<not> k < l"
  then have "(2 :: real) powi l \<le> 2 powi k"
    by (intro pow2_mono) simp
  then show False using a(1) by linarith
qed

lemma pow2_int: "0 \<le> j \<Longrightarrow> (2 :: real) powi j = real_of_int (2 ^ nat j)"
  by (simp add: power_int_nonneg_exp)

lemma rnd_exact:
  assumes "1 \<le> p" "x = real_of_int m * 2 powi k" "emin - p + 1 \<le> k" "\<bar>x\<bar> < 2 powi (k + p)"
  shows "rnd p emin x = x"
proof -
  let ?e = "expo p emin x"
  have le: "?e - p + 1 \<le> k"
  proof (cases "?e = emin")
    case True
    then show ?thesis using assms(3) by simp
  next
    case False
    then have "emin < ?e" using expo_ge[of emin p x] by simp
    then have "2 powi ?e \<le> \<bar>x\<bar>" by (rule expo_lower[OF _ assms(1)])
    then have "(2 :: real) powi ?e < 2 powi (k + p)" using assms(4) by linarith
    then have "?e < k + p" by (rule pow2_less_imp)
    then show ?thesis by simp
  qed
  define j where "j = k - (?e - p + 1)"
  have j: "0 \<le> j" using le by (simp add: j_def)
  have "x / ulp p emin x = real_of_int m * (2 powi k / 2 powi (?e - p + 1))"
    by (simp add: assms(2) ulp_def)
  also have "\<dots> = real_of_int m * 2 powi j"
    by (simp only: pow2_diff[symmetric] j_def)
  also have "\<dots> = real_of_int (m * 2 ^ nat j)"
    by (simp add: pow2_int[OF j])
  finally show ?thesis by (rule rnd_grid)
qed

lemma rnd_int:
  assumes "1 \<le> p" "emin - p + 1 \<le> 0" "\<bar>n\<bar> < 2 ^ nat p"
  shows "rnd p emin (real_of_int n) = real_of_int n"
proof (rule rnd_exact[OF assms(1), of _ n 0])
  show "real_of_int n = real_of_int n * 2 powi 0" by simp
  show "emin - p + 1 \<le> 0" by (rule assms(2))
  have "real_of_int \<bar>n\<bar> < real_of_int (2 ^ nat p)"
    using assms(3) by (simp only: of_int_less_iff)
  then show "\<bar>real_of_int n\<bar> < 2 powi (0 + p)"
    using assms(1) by (simp add: power_int_nonneg_exp)
qed


lemma expo_mono:
  assumes "\<bar>x\<bar> \<le> \<bar>y\<bar>" "1 \<le> p"
  shows "expo p emin x \<le> expo p emin y"
proof (rule ccontr)
  assume "\<not> expo p emin x \<le> expo p emin y"
  then have l: "expo p emin y + 1 \<le> expo p emin x" by simp
  then have "emin < expo p emin x" using expo_ge[of emin p y] by linarith
  then have "2 powi (expo p emin x) \<le> \<bar>x\<bar>" by (rule expo_lower[OF _ assms(2)])
  moreover have "(2 :: real) powi (expo p emin y + 1) \<le> 2 powi (expo p emin x)"
    by (rule pow2_mono[OF l])
  ultimately show False
    using expo_upper[of y p emin] assms(1) by linarith
qed

lemma rnd_le_binade:
  assumes "1 \<le> p" "0 \<le> x"
  shows "rnd p emin x \<le> 2 powi (expo p emin x + 1)"
proof -
  let ?e = "expo p emin x"
  let ?u = "ulp p emin x"
  have u: "0 < ?u" by (rule ulp_pos)
  have s: "(2 :: real) powi (?e + 1) = ?u * 2 powi p"
    unfolding ulp_def pow2_add[symmetric] by simp
  have "x < ?u * 2 powi p"
    using expo_upper[of x p emin] assms(2) by (simp add: s)
  then have "x / ?u \<le> 2 powi p"
    using u by (simp add: pos_divide_le_eq mult.commute)
  then have "x / ?u \<le> real_of_int (2 ^ nat p)"
    using assms(1) by (simp add: power_int_nonneg_exp)
  then have "rne (x / ?u) \<le> rne (real_of_int (2 ^ nat p))"
    by (rule rne_mono)
  then have "rne (x / ?u) \<le> 2 ^ nat p"
    by (simp only: rne_int)
  then have "real_of_int (rne (x / ?u)) \<le> real_of_int (2 ^ nat p)"
    by (simp only: of_int_le_iff)
  then have "real_of_int (rne (x / ?u)) \<le> 2 powi p"
    using assms(1) by (simp add: power_int_nonneg_exp)
  then have "?u * real_of_int (rne (x / ?u)) \<le> ?u * 2 powi p"
    using u by (intro mult_left_mono) simp_all
  then show ?thesis by (simp only: s rnd_def)
qed

lemma rnd_ge_binade:
  assumes "1 \<le> p" "0 \<le> x" "emin < expo p emin x"
  shows "2 powi (expo p emin x) \<le> rnd p emin x"
proof -
  let ?e = "expo p emin x"
  let ?u = "ulp p emin x"
  have u: "0 < ?u" by (rule ulp_pos)
  have s: "(2 :: real) powi ?e = ?u * 2 powi (p - 1)"
    unfolding ulp_def pow2_add[symmetric] by simp
  have p1: "0 \<le> p - 1" using assms(1) by simp
  have "?u * 2 powi (p - 1) \<le> x"
    using expo_lower[OF assms(3,1)] assms(2) by (simp add: s)
  then have "2 powi (p - 1) \<le> x / ?u"
    using u by (simp add: pos_le_divide_eq mult.commute)
  then have "real_of_int (2 ^ nat (p - 1)) \<le> x / ?u"
    by (simp add: pow2_int[OF p1])
  then have "rne (real_of_int (2 ^ nat (p - 1))) \<le> rne (x / ?u)"
    by (rule rne_mono)
  then have "2 ^ nat (p - 1) \<le> rne (x / ?u)"
    by (simp only: rne_int)
  then have "real_of_int (2 ^ nat (p - 1)) \<le> real_of_int (rne (x / ?u))"
    by (simp only: of_int_le_iff)
  then have "2 powi (p - 1) \<le> real_of_int (rne (x / ?u))"
    by (simp add: pow2_int[OF p1])
  then have "?u * 2 powi (p - 1) \<le> ?u * real_of_int (rne (x / ?u))"
    using u by (intro mult_left_mono) simp_all
  then show ?thesis by (simp only: s rnd_def)
qed

lemma rnd_mono_pos:
  assumes "1 \<le> p" "0 \<le> x" "x \<le> y"
  shows "rnd p emin x \<le> rnd p emin y"
proof -
  have y0: "0 \<le> y" using assms(2,3) by simp
  have le: "expo p emin x \<le> expo p emin y"
    by (rule expo_mono[OF _ assms(1)]) (use assms(2,3) in simp)
  show ?thesis
  proof (cases "expo p emin x = expo p emin y")
    case True
    then have u: "ulp p emin x = ulp p emin y" by (simp add: ulp_def)
    have "x / ulp p emin y \<le> y / ulp p emin y"
      using assms(3) ulp_pos[of p emin y] by (simp add: divide_right_mono)
    then have "rne (x / ulp p emin y) \<le> rne (y / ulp p emin y)"
      by (rule rne_mono)
    then have "real_of_int (rne (x / ulp p emin y)) \<le> real_of_int (rne (y / ulp p emin y))"
      by (simp only: of_int_le_iff)
    then show ?thesis
      unfolding rnd_def u using ulp_pos[of p emin y] by (intro mult_left_mono) simp_all
  next
    case False
    then have l: "expo p emin x + 1 \<le> expo p emin y" using le by simp
    then have n: "emin < expo p emin y" using expo_ge[of emin p x] by linarith
    have "rnd p emin x \<le> 2 powi (expo p emin x + 1)"
      by (rule rnd_le_binade[OF assms(1,2)])
    also have "\<dots> \<le> 2 powi (expo p emin y)"
      by (rule pow2_mono[OF l])
    also have "\<dots> \<le> rnd p emin y"
      by (rule rnd_ge_binade[OF assms(1) y0 n])
    finally show ?thesis .
  qed
qed

lemma rnd_mono:
  assumes "1 \<le> p" "x \<le> y"
  shows "rnd p emin x \<le> rnd p emin y"
proof -
  consider "0 \<le> x" | "x < 0" "0 \<le> y" | "y < 0" using assms(2) by linarith
  then show ?thesis
  proof cases
    case 1
    then show ?thesis by (rule rnd_mono_pos[OF assms(1) _ assms(2)])
  next
    case 2
    have "0 \<le> rnd p emin (- x)" by (rule rnd_nonneg) (use 2 in simp)
    then have "rnd p emin x \<le> 0" by (simp add: rnd_neg)
    moreover have "0 \<le> rnd p emin y" by (rule rnd_nonneg[OF 2(2)])
    ultimately show ?thesis by linarith
  next
    case 3
    have "rnd p emin (- y) \<le> rnd p emin (- x)"
      by (rule rnd_mono_pos[OF assms(1)]) (use 3 assms(2) in simp_all)
    then show ?thesis by (simp add: rnd_neg)
  qed
qed

lemma ulp_rel:
  assumes "1 \<le> p" "2 powi emin \<le> \<bar>x\<bar>"
  shows "ulp p emin x \<le> 2 powi (1 - p) * \<bar>x\<bar>"
proof -
  have "2 powi (expo p emin x) \<le> \<bar>x\<bar>"
  proof (cases "expo p emin x = emin")
    case True
    then show ?thesis using assms(2) by simp
  next
    case False
    then have "emin < expo p emin x" using expo_ge[of emin p x] by simp
    then show ?thesis by (rule expo_lower[OF _ assms(1)])
  qed
  then have "2 powi (1 - p) * 2 powi (expo p emin x) \<le> 2 powi (1 - p) * \<bar>x\<bar>"
    using pow2_pos[of "1 - p"] by (intro mult_left_mono) simp_all
  moreover have "ulp p emin x = 2 powi (1 - p) * 2 powi (expo p emin x)"
    unfolding ulp_def pow2_add[symmetric] by (simp add: algebra_simps)
  ultimately show ?thesis by simp
qed

lemma rnd_rel:
  assumes "1 \<le> p" "2 powi emin \<le> \<bar>x\<bar>"
  shows "\<bar>rnd p emin x - x\<bar> \<le> 2 powi (- p) * \<bar>x\<bar>"
proof -
  have "\<bar>rnd p emin x - x\<bar> \<le> ulp p emin x / 2" by (rule rnd_err)
  also have "\<dots> \<le> (2 powi (1 - p) * \<bar>x\<bar>) / 2"
    using ulp_rel[OF assms] by simp
  also have "\<dots> = 2 powi (- p) * \<bar>x\<bar>"
    using pow2_diff[of "1" p] by (simp add: power_int_minus field_simps)
  finally show ?thesis .
qed

lemma expo_le:
  assumes "\<bar>x\<bar> \<le> 2 powi k" "emin \<le> k" "1 \<le> p"
  shows "expo p emin x \<le> k"
proof (rule ccontr)
  assume "\<not> expo p emin x \<le> k"
  then have l: "k + 1 \<le> expo p emin x" by simp
  then have "emin < expo p emin x" using assms(2) by simp
  then have "2 powi (expo p emin x) \<le> \<bar>x\<bar>" by (rule expo_lower[OF _ assms(3)])
  moreover have "(2 :: real) powi (k + 1) \<le> 2 powi (expo p emin x)"
    by (rule pow2_mono[OF l])
  moreover have "(2 :: real) powi k < 2 powi (k + 1)"
    by (rule power_int_strict_increasing) simp_all
  ultimately show False using assms(1) by linarith
qed

lemma rnd_abs:
  assumes "\<bar>x\<bar> \<le> 2 powi k" "emin \<le> k" "1 \<le> p"
  shows "\<bar>rnd p emin x - x\<bar> \<le> 2 powi (k - p)"
proof -
  have "ulp p emin x \<le> 2 powi (k - p + 1)"
    unfolding ulp_def by (rule pow2_mono) (use expo_le[OF assms] in simp)
  then have "ulp p emin x / 2 \<le> 2 powi (k - p + 1) / 2" by simp
  also have "\<dots> = 2 powi (k - p)"
    by (simp add: pow2_Suc)
  finally show ?thesis
    using rnd_err[of p emin x] by linarith
qed

lemma rnd_eval:
  assumes "2 powi e \<le> \<bar>x\<bar>" "\<bar>x\<bar> < 2 powi (e + 1)" "emin \<le> e" "1 \<le> p"
  shows "rnd p emin x = 2 powi (e - p + 1) * real_of_int (rne (x / 2 powi (e - p + 1)))"
  by (simp add: rnd_def ulp_def expo_eqI[OF assms])

lemma fl32_eval:
  assumes "2 powi e \<le> \<bar>x\<bar>" "\<bar>x\<bar> < 2 powi (e + 1)" "- 126 \<le> e"
  shows "fl32 x = 2 powi (e - 23) * real_of_int (rne (x / 2 powi (e - 23)))"
  unfolding fl32_def using rnd_eval[OF assms, of 24] by simp

lemma fl64_eval:
  assumes "2 powi e \<le> \<bar>x\<bar>" "\<bar>x\<bar> < 2 powi (e + 1)" "- 1022 \<le> e"
  shows "fl64 x = 2 powi (e - 52) * real_of_int (rne (x / 2 powi (e - 52)))"
  unfolding fl64_def using rnd_eval[OF assms, of 53] by simp

lemma fl32_exact:
  assumes "x = real_of_int m * 2 powi k" "- 149 \<le> k" "\<bar>m\<bar> < 16777216"
  shows "fl32 x = x"
  unfolding fl32_def
proof (rule rnd_exact[OF _ assms(1)])
  show "(1 :: int) \<le> 24" by simp
  show "- 126 - 24 + 1 \<le> k" using assms(2) by simp
  have "real_of_int \<bar>m\<bar> < 16777216"
    using assms(3) by linarith
  then have "real_of_int \<bar>m\<bar> * 2 powi k < 16777216 * 2 powi k"
    using pow2_pos[of k] by (intro mult_strict_right_mono) simp_all
  moreover have "(2 :: real) powi (k + 24) = 16777216 * 2 powi k"
    by (simp add: pow2_add)
  ultimately show "\<bar>x\<bar> < 2 powi (k + 24)"
    using pow2_pos[of k] by (simp add: assms(1) abs_mult)
qed

lemma fl64_exact:
  assumes "x = real_of_int m * 2 powi k" "- 1074 \<le> k" "\<bar>m\<bar> < 9007199254740992"
  shows "fl64 x = x"
  unfolding fl64_def
proof (rule rnd_exact[OF _ assms(1)])
  show "(1 :: int) \<le> 53" by simp
  show "- 1022 - 53 + 1 \<le> k" using assms(2) by simp
  have "real_of_int \<bar>m\<bar> < 9007199254740992"
    using assms(3) by linarith
  then have "real_of_int \<bar>m\<bar> * 2 powi k < 9007199254740992 * 2 powi k"
    using pow2_pos[of k] by (intro mult_strict_right_mono) simp_all
  moreover have "(2 :: real) powi (k + 53) = 9007199254740992 * 2 powi k"
    by (simp add: pow2_add)
  ultimately show "\<bar>x\<bar> < 2 powi (k + 53)"
    using pow2_pos[of k] by (simp add: assms(1) abs_mult)
qed

lemma fl32_int: "\<bar>n\<bar> < 16777216 \<Longrightarrow> fl32 (real_of_int n) = real_of_int n"
  by (rule fl32_exact[of _ n 0]) simp_all

lemma fl64_int: "\<bar>n\<bar> < 9007199254740992 \<Longrightarrow> fl64 (real_of_int n) = real_of_int n"
  by (rule fl64_exact[of _ n 0]) simp_all

lemma fl32_mono: "x \<le> y \<Longrightarrow> fl32 x \<le> fl32 y"
  unfolding fl32_def by (rule rnd_mono) simp_all

lemma fl64_mono: "x \<le> y \<Longrightarrow> fl64 x \<le> fl64 y"
  unfolding fl64_def by (rule rnd_mono) simp_all

lemma f32_fin: "\<bar>x\<bar> < 2 ^ 128 - 2 ^ 103 \<Longrightarrow> f32 x = Fin (fl32 x)"
  by (auto simp add: f32_def)

lemma f64_fin: "\<bar>x\<bar> < 2 ^ 1024 - 2 ^ 970 \<Longrightarrow> f64 x = Fin (fl64 x)"
  by (auto simp add: f64_def)

lemma f32_exact:
  assumes "x = real_of_int m * 2 powi k" "- 149 \<le> k" "k \<le> 100" "\<bar>m\<bar> < 16777216"
  shows "f32 x = Fin x"
proof -
  have "real_of_int \<bar>m\<bar> < 16777216" using assms(4) by linarith
  moreover have "(2 :: real) powi k \<le> 2 powi 100"
    by (rule pow2_mono[OF assms(3)])
  ultimately have "real_of_int \<bar>m\<bar> * 2 powi k \<le> 16777216 * 2 powi 100"
    using pow2_pos[of k] by (intro mult_mono) simp_all
  then have "\<bar>x\<bar> < 2 ^ 128 - 2 ^ 103"
    using pow2_pos[of k] by (simp add: assms(1) abs_mult)
  then show ?thesis
    by (simp add: f32_fin fl32_exact[OF assms(1,2,4)])
qed

lemma f64_exact:
  assumes "x = real_of_int m * 2 powi k" "- 1074 \<le> k" "k \<le> 100" "\<bar>m\<bar> < 9007199254740992"
  shows "f64 x = Fin x"
proof -
  have "real_of_int \<bar>m\<bar> < 9007199254740992" using assms(4) by linarith
  moreover have "(2 :: real) powi k \<le> 2 powi 100"
    by (rule pow2_mono[OF assms(3)])
  ultimately have "real_of_int \<bar>m\<bar> * 2 powi k \<le> 9007199254740992 * 2 powi 100"
    using pow2_pos[of k] by (intro mult_mono) simp_all
  then have "\<bar>x\<bar> < 2 ^ 1024 - 2 ^ 970"
    using pow2_pos[of k] by (simp add: assms(1) abs_mult)
  then show ?thesis
    by (simp add: f64_fin fl64_exact[OF assms(1,2,4)])
qed

subsection \<open>The integer weights for the weights (100, 100, 100)\<close>

text \<open>
  The \<^verbatim>\<open>float\<close> sum of the three weights is 300, so the loop takes its
  decreasing branch although the truncated weights (85, 85, 85) add up to 255
  only. The weights fall in turn to (0, 0, 0), the third one wraps around to 65535
  and is then lowered to 256.
\<close>

lemma fl32_third: "fl32 (1 / 3) = 11184811 / 33554432"
  by (subst fl32_eval[of "- 2"]) (simp_all add: rne_def)

lemma sum_100: "weight_sum 100 100 100 = Fin 300"
  using fl32_int[of 200] fl32_int[of 300] by (simp add: weight_sum_def fp_add_def f32_def)

lemma init_100: "init_coeffs 100 100 100 = Some (85, 85, 85)"
proof -
  have e: "fl32 (11184811 / 131072) = 11184811 / 131072"
    by (rule fl32_exact[of _ 11184811 "- 17"]) simp_all
  have "init_coeff 100 (Fin 300) = Some 85"
    by (simp add: init_coeff_def fp_div_def fp_mul_def f32_def fl32_third e fcast_u16_def trunc_def)
  then show ?thesis
    by (simp add: init_coeffs_def sum_100)
qed

lemma ideal_100: "85 \<le> fl64 (256 / 3)" "fl64 (256 / 3) \<le> 86"
proof -
  have "fl64 (real_of_int 85) \<le> fl64 (256 / 3)" by (rule fl64_mono) simp
  then show "85 \<le> fl64 (256 / 3)" using fl64_int[of 85] by simp
  have "fl64 (256 / 3) \<le> fl64 (real_of_int 86)" by (rule fl64_mono) simp
  then show "fl64 (256 / 3) \<le> 86" using fl64_int[of 86] by simp
qed

lemma fl64_abs16:
  assumes "\<bar>x\<bar> \<le> 65536"
  shows "\<bar>fl64 x - x\<bar> \<le> 1 / 128"
proof -
  have "\<bar>x\<bar> \<le> 2 powi 16" using assms by simp
  then have "\<bar>rnd 53 (- 1022) x - x\<bar> \<le> 2 powi (16 - 53)"
    by (rule rnd_abs) simp_all
  moreover have "(2 :: real) powi (16 - 53) \<le> 1 / 128" by simp
  ultimately show ?thesis unfolding fl64_def by linarith
qed

lemma fl32_abs17:
  assumes "\<bar>x\<bar> \<le> 131072"
  shows "\<bar>fl32 x - x\<bar> \<le> 1 / 128"
proof -
  have "\<bar>x\<bar> \<le> 2 powi 17" using assms by simp
  then have "\<bar>rnd 24 (- 126) x - x\<bar> \<le> 2 powi (17 - 24)"
    by (rule rnd_abs) simp_all
  moreover have "(2 :: real) powi (17 - 24) \<le> 1 / 128" by simp
  ultimately show ?thesis unfolding fl32_def by linarith
qed

text \<open>The difference \<^verbatim>\<open>256.0 * a / sum - coeffs[k]\<close> for a quotient \<open>J\<close> up to 256.\<close>

lemma diff_value:
  assumes "0 \<le> J" "J \<le> 256"
  shows "to_f32 (fp_sub f64 (Fin J) (Fin (real_of_int (uint (c :: 16 word)))))
       = Fin (fl32 (fl64 (J - real_of_int (uint c))))"
proof -
  let ?u = "real_of_int (uint c)"
  have u: "0 \<le> ?u" "?u \<le> 65535"
    using uint_bounded[of c] by (simp_all del: of_int_uint)
  have a: "\<bar>J - ?u\<bar> \<le> 65536" using assms u by linarith
  have b: "\<bar>fl64 (J - ?u)\<bar> \<le> 131072"
    using fl64_abs16[OF a] a by linarith
  have "fp_sub f64 (Fin J) (Fin ?u) = Fin (fl64 (J - ?u))"
    using a by (simp add: fp_sub_def fp_neg_def fp_add_def f64_fin del: of_int_uint)
  moreover have "f32 (fl64 (J - ?u)) = Fin (fl32 (fl64 (J - ?u)))"
    using b by (intro f32_fin) simp
  ultimately show ?thesis
    by (simp add: to_f32_def del: of_int_uint)
qed

lemma diff_less_iff:
  assumes "0 \<le> J" "J \<le> 256"
  shows "fl32 (fl64 (J - real_of_int (uint (c :: 16 word))))
           < fl32 (fl64 (J - real_of_int (uint (d :: 16 word))))
       \<longleftrightarrow> uint d < uint c"
proof
  let ?u = "real_of_int (uint c)"
  let ?v = "real_of_int (uint d)"
  assume l: "fl32 (fl64 (J - ?u)) < fl32 (fl64 (J - ?v))"
  show "uint d < uint c"
  proof (rule ccontr)
    assume "\<not> uint d < uint c"
    then have "uint c \<le> uint d" by simp
    then have "?u \<le> ?v" by (simp only: of_int_le_iff)
    then have "J - ?v \<le> J - ?u" by linarith
    then have "fl32 (fl64 (J - ?v)) \<le> fl32 (fl64 (J - ?u))"
      by (intro fl32_mono fl64_mono)
    then show False using l by simp
  qed
next
  let ?u = "real_of_int (uint c)"
  let ?v = "real_of_int (uint d)"
  assume "uint d < uint c"
  then have "uint d + 1 \<le> uint c" by simp
  then have "real_of_int (uint d + 1) \<le> ?u" by (simp only: of_int_le_iff)
  then have s: "?v + 1 \<le> ?u" by simp
  have u: "0 \<le> ?u" "?u \<le> 65535" "0 \<le> ?v" "?v \<le> 65535"
    using uint_bounded[of c] uint_bounded[of d] by (simp_all del: of_int_uint)
  have a: "\<bar>J - ?u\<bar> \<le> 65536" "\<bar>J - ?v\<bar> \<le> 65536" using assms u by linarith+
  have b: "\<bar>fl64 (J - ?u)\<bar> \<le> 131072" "\<bar>fl64 (J - ?v)\<bar> \<le> 131072"
    using fl64_abs16[OF a(1)] fl64_abs16[OF a(2)] a by linarith+
  show "fl32 (fl64 (J - ?u)) < fl32 (fl64 (J - ?v))"
    using fl64_abs16[OF a(1)] fl64_abs16[OF a(2)] fl32_abs17[OF b(1)] fl32_abs17[OF b(2)] s
    by linarith
qed

lemma fp_less_Fin: "fp_less (Fin x) (Fin y) \<longleftrightarrow> x < y"
  by (simp add: fp_less_def)

lemma ideal_value_100:
  "fp_div f64 (fp_mul f64 (Fin 256) (Fin 100)) (Fin 300) = Fin (fl64 (256 / 3))"
  using fl64_int[of 25600] ideal_100
  by (simp add: fp_div_def fp_mul_def f64_def)

text \<open>
  With equal weights the pass lowers the largest integer weight, the last one
  among equal ones.
\<close>

lemma adjust_100:
  "adjust 100 100 100 (c0, c1, c2) =
     (if uint c1 < uint c0 then
        (if uint c2 < uint c0 then (c0 - 1, c1, c2) else (c0, c1, c2 - 1))
      else
        (if uint c2 < uint c1 then (c0, c1 - 1, c2) else (c0, c1, c2 - 1)))"
proof -
  have J: "0 \<le> fl64 (256 / 3)" "fl64 (256 / 3) \<le> 256"
    using ideal_100 by linarith+
  have d: "\<And>c. coeff_diff 100 (Fin 300) c
      = Fin (fl32 (fl64 (fl64 (256 / 3) - real_of_int (uint c))))"
    unfolding coeff_diff_def ideal_value_100 by (rule diff_value[OF J])
  show ?thesis
    by (simp add: adjust_def sum_100 d fp_less_Fin diff_less_iff[OF J] del: of_int_uint)
qed

lemma uint_pred16: "0 < uint (w :: 16 word) \<Longrightarrow> uint (w - 1) = uint w - 1"
  by (simp add: uint_sub_if')

lemma uint_eq_numeral16: "uint (w :: 16 word) = uint (v :: 16 word) \<Longrightarrow> w = v"
  by (simp only: word_uint_eq_iff)

lemma adjust_100_phase3:
  "adjust 100 100 100 (0, 0, w) = (0, 0, w - 1)"
  by (simp add: adjust_100)

lemma loop_100_phase3:
  assumes "uint w = 256 + int k"
  shows "adjust_loop 100 100 100 n (0, 0, w) = Some (n + k, (0, 0, 256))"
  using assms
proof (induction k arbitrary: w n)
  case 0
  then have "w = 256" by (intro uint_eq_numeral16) simp
  then show ?case by (simp add: adjust_loop.simps total_def)
next
  case (Suc k)
  then have w: "256 < uint w" by simp
  then have p: "uint (w - 1) = 256 + int k" using Suc.prems by (simp add: uint_pred16)
  have t: "total (0, 0, w) \<noteq> 256"
    using w by (simp add: total_def)
  have "adjust_loop 100 100 100 n (0, 0, w)
      = adjust_loop 100 100 100 (Suc n) (0, 0, w - 1)"
    using t by (subst adjust_loop.simps) (simp add: adjust_100_phase3)
  also have "\<dots> = Some (Suc n + k, (0, 0, 256))"
    by (rule Suc.IH[OF p])
  finally show ?case by simp
qed

lemma adjust_100_round:
  assumes "0 < uint w" 
  shows "adjust 100 100 100 (w, w, w) = (w, w, w - 1)"
    and "adjust 100 100 100 (w, w, w - 1) = (w, w - 1, w - 1)"
    and "adjust 100 100 100 (w, w - 1, w - 1) = (w - 1, w - 1, w - 1)"
  using assms by (simp_all add: adjust_100 uint_pred16)

lemma total_100_round:
  assumes "0 < uint w" "uint w \<le> 85"
  shows "total (w, w, w) \<noteq> 256"
    and "total (w, w, w - 1) \<noteq> 256"
    and "total (w, w - 1, w - 1) \<noteq> 256"
  using assms by (simp_all add: total_def uint_pred16)

lemma loop_100_phase1:
  assumes "uint w = int k" "k \<le> 85"
  shows "adjust_loop 100 100 100 n (w, w, w)
       = adjust_loop 100 100 100 (n + 3 * k) (0, 0, 0)"
  using assms
proof (induction k arbitrary: w n)
  case 0
  then have "w = 0" by (intro uint_eq_numeral16) simp
  then show ?case by simp
next
  case (Suc k)
  have k: "0 < uint w" "uint w \<le> 85" using Suc.prems by simp_all
  then have p: "uint (w - 1) = int k" using Suc.prems by (simp add: uint_pred16)
  have "adjust_loop 100 100 100 n (w, w, w)
      = adjust_loop 100 100 100 (Suc n) (w, w, w - 1)"
    using total_100_round(1)[OF k] adjust_100_round(1)[OF k(1)]
    by (subst adjust_loop.simps) simp
  also have "\<dots> = adjust_loop 100 100 100 (Suc (Suc n)) (w, w - 1, w - 1)"
    using total_100_round(2)[OF k] adjust_100_round(2)[OF k(1)]
    by (subst adjust_loop.simps) simp
  also have "\<dots> = adjust_loop 100 100 100 (Suc (Suc (Suc n))) (w - 1, w - 1, w - 1)"
    using total_100_round(3)[OF k] adjust_100_round(3)[OF k(1)]
    by (subst adjust_loop.simps) simp
  also have "\<dots> = adjust_loop 100 100 100 (Suc (Suc (Suc n)) + 3 * k) (0, 0, 0)"
    using Suc.IH[OF p] Suc.prems by simp
  also have "Suc (Suc (Suc n)) + 3 * k = n + 3 * Suc k"
    by simp
  finally show ?case .
qed

lemma loop_100_wrap:
  "adjust_loop 100 100 100 n (0, 0, 0) = adjust_loop 100 100 100 (Suc n) (0, 0, 65535)"
proof -
  have "adjust 100 100 100 (0, 0, 0) = (0, 0, 65535)"
    by (simp add: adjust_100)
  then show ?thesis
    by (subst adjust_loop.simps) (simp add: total_def)
qed

lemma loop_100:
  "adjust_loop 100 100 100 0 (85, 85, 85) = Some (65535, (0, 0, 256))"
proof -
  have "adjust_loop 100 100 100 0 (85, 85, 85)
      = adjust_loop 100 100 100 255 (0, 0, 0)"
    using loop_100_phase1[of 85 85 0] by simp
  also have "\<dots> = adjust_loop 100 100 100 256 (0, 0, 65535)"
    using loop_100_wrap[of 255] by simp
  also have "\<dots> = Some (65535, (0, 0, 256))"
    using loop_100_phase3[of 65535 65279 256] by simp
  finally show ?thesis .
qed

text \<open>
  C2: the normalization invariant says that for all non-negative weights with a
  positive sum the integer weights add up to 256 and each is within 1 of its
  ideal value. For the weights (100, 100, 100) the function returns (0, 0, 256):
  the sum is 256, but the ideal value of each weight is 256/3.
\<close>

theorem convert_coeffs_100:
  "convert_coeffs_to_max256 100 100 100 = Some (Inr (0, 0, 256))
   \<and> \<not> near 100 100 100 (0, 0, 256)"
  by (simp add: convert_coeffs_to_max256_def init_100 loop_100 near_def)

text \<open>
  C3: the adjustment loop is said to end after at most 256 passes. For the
  weights (100, 100, 100) it ends after 65535 passes.
\<close>

theorem convert_iterations_100:
  "convert_iterations 100 100 100 = Some (Inr 65535)"
  by (simp add: convert_iterations_def init_100 loop_100)

subsection \<open>The two-pixel scenario\<close>

lemma fl32_zero: "fl32 0 = 0"
  using fl32_int[of 0] by simp

lemma fl32_numeral: "(numeral n :: int) < 16777216 \<Longrightarrow> fl32 (numeral n) = numeral n"
  using fl32_int[of "numeral n"] by simp

lemma f32_zero: "f32 0 = Fin 0"
  by (simp add: f32_def fl32_zero)

lemma f32_numeral: "(numeral n :: int) < 16777216 \<Longrightarrow> f32 (numeral n) = Fin (numeral n)"
proof -
  assume a: "(numeral n :: int) < 16777216"
  then have r: "(numeral n :: real) < 16777216" by simp
  have p: "(0 :: real) \<le> numeral n" by simp
  have "(16777216 :: real) < 2 ^ 128 - 2 ^ 103" by simp
  then have "\<bar>numeral n :: real\<bar> < 2 ^ 128 - 2 ^ 103"
    using r p by linarith
  then show ?thesis by (simp only: f32_fin fl32_numeral[OF a])
qed

lemma fp_mul_zero: "fp_mul f32 (Fin x) (Fin 0) = Fin 0"
  by (simp add: fp_mul_def f32_zero)

lemma fp_add_zero: "fp_add f32 (Fin 0) (Fin 0) = Fin 0"
  by (simp add: fp_add_def f32_zero)

lemma sum_111: "weight_sum 1 1 1 = Fin 3"
  by (simp add: weight_sum_def fp_add_def f32_numeral)

lemma third_weight: "fp_div f32 (Fin 1) (Fin 3) = Fin (11184811 / 33554432)"
  by (simp add: fp_div_def f32_def fl32_third)

lemma init_111: "init_coeffs 1 1 1 = Some (85, 85, 85)"
proof -
  have e: "fl32 (11184811 / 131072) = 11184811 / 131072"
    by (rule fl32_exact[of _ 11184811 "- 17"]) simp_all
  have "init_coeff 1 (Fin 3) = Some 85"
    by (simp add: init_coeff_def third_weight fp_mul_def f32_def e fcast_u16_def trunc_def)
  then show ?thesis
    by (simp add: init_coeffs_def sum_111)
qed

lemma ideal_value_111:
  "fp_div f64 (fp_mul f64 (Fin 256) (Fin 1)) (Fin 3) = Fin (fl64 (256 / 3))"
  using fl64_int[of 256] ideal_100
  by (simp add: fp_div_def fp_mul_def f64_def)

lemma adjust_111: "adjust 1 1 1 (85, 85, 85) = (85, 85, 86)"
proof -
  have J: "0 \<le> fl64 (256 / 3)" "fl64 (256 / 3) \<le> 256"
    using ideal_100 by linarith+
  have d: "\<And>c. coeff_diff 1 (Fin 3) c
      = Fin (fl32 (fl64 (fl64 (256 / 3) - real_of_int (uint c))))"
    unfolding coeff_diff_def ideal_value_111 by (rule diff_value[OF J])
  show ?thesis
    by (simp add: adjust_def sum_111 d fp_less_Fin)
qed

lemma convert_coeffs_111: "convert_coeffs_to_max256 1 1 1 = Some (Inr (85, 85, 86))"
  by (simp add: convert_coeffs_to_max256_def init_111 adjust_loop.simps total_def adjust_111)

lemma upt_2: "[0..<2] = [0, 1]"
  by (simp add: upt_rec)

lemma mul_third_255: "fp_mul f32 (Fin (11184811 / 33554432)) (Fin 255) = Fin 85"
proof -
  have "fl32 (2852126805 / 33554432) = 85"
    by (subst fl32_eval[of 6]) (simp_all add: rne_def)
  then show ?thesis
    by (simp add: fp_mul_def f32_def)
qed

text \<open>
  C6: for the image of width 2 and height 1 with the pixels (255,0,0) and
  (0,0,0), the weights (1,1,1), brightness 0 and no contrast, the scalar variants
  V1 and V2 return [85, 0]; the vectorized variant V0 works with the integer
  weights (85, 85, 86) and returns [84, 0]; the two outputs differ by at most 1
  at every pixel.
\<close>

theorem concrete_scenario:
  "brightness_contrast_V1 [255, 0, 0, 0, 0, 0] 2 1 1 1 1 0 None = Some (Inr [85, 0])
   \<and> brightness_contrast_V2 [255, 0, 0, 0, 0, 0] 2 1 1 1 1 0 None = Some (Inr [85, 0])
   \<and> convert_coeffs_to_max256 1 1 1 = Some (Inr (85, 85, 86))
   \<and> brightness_contrast_V0 [255, 0, 0, 0, 0, 0] 2 1 1 1 1 0 None = Some (Inr [84, 0])
   \<and> within1 [85, 0] [84, 0]"
proof -
  have "brightness_contrast_V1 [255, 0, 0, 0, 0, 0] 2 1 1 1 1 0 None = Some (Inr [85, 0])"
    by (simp add: brightness_contrast_V1_def sum_111 third_weight V1_grey_def weighted_def
        mul_third_255 fp_mul_zero fp_add_def f32_zero f32_numeral fcast_u8_def cast_u8_def
        trunc_def upt_2)
  moreover
  have "brightness_contrast_V2 [255, 0, 0, 0, 0, 0] 2 1 1 1 1 0 None = Some (Inr [85, 0])"
    by (simp add: brightness_contrast_V2_def sum_111 V2_grey_def weighted_def
        fp_mul_def fp_add_def fp_div_def f32_numeral f32_zero fcast_u8_def cast_u8_def
        trunc_def upt_2)
  moreover
  have "brightness_contrast_V0 [255, 0, 0, 0, 0, 0] 2 1 1 1 1 0 None = Some (Inr [84, 0])"
    by (simp add: brightness_contrast_V0_def convert_coeffs_111 simd_indices_def
        rest_indices_def V0_rest_def upt_2)
  moreover
  have "within1 [85, 0] [84, 0]"
    by (simp add: within1_def)
  ultimately show ?thesis
    using convert_coeffs_111 by simp
qed

subsection \<open>Large weights in \<^verbatim>\<open>brightness_contrast_V2\<close>\<close>

text \<open>
  The weight \<open>W = 7888609 * 2 ^ 100\<close> is the \<^verbatim>\<open>float\<close> nearest to \<open>10 ^ 37\<close>. The sum
  \<open>W + W + W\<close> is finite, but the product \<open>W * 40\<close> is not.
\<close>

lemma upt_1: "[0..<1] = [0]"
  by (simp add: upt_rec)

lemma big_weight: "f32 9999999933815812510711506376257961984 = Fin 9999999933815812510711506376257961984"
  using f32_exact[of 9999999933815812510711506376257961984 7888609 100] by simp

lemma big_sum:
  "weight_sum 9999999933815812510711506376257961984 9999999933815812510711506376257961984
     9999999933815812510711506376257961984 = Fin 30000001069098037760363920625477091328"
proof -
  have a: "f32 19999999867631625021423012752515923968 = Fin 19999999867631625021423012752515923968"
    using f32_exact[of 19999999867631625021423012752515923968 15777218 100] by simp
  have "fl32 29999999801447437532134519128773885952 = 30000001069098037760363920625477091328"
    by (subst fl32_eval[of 124]) (simp_all add: rne_def)
  then have b: "f32 29999999801447437532134519128773885952 = Fin 30000001069098037760363920625477091328"
    by (simp add: f32_def)
  show ?thesis
    by (simp add: weight_sum_def fp_add_def a b)
qed

lemma big_weighted:
  "weighted (Fin 9999999933815812510711506376257961984) (Fin 9999999933815812510711506376257961984)
     (Fin 9999999933815812510711506376257961984) [40, 0, 0] 0 = Inf"
  by (simp add: weighted_def fp_mul_def fp_add_def f32_def fl32_zero)

lemma big_V2:
  "brightness_contrast_V2 [40, 0, 0] 1 1 9999999933815812510711506376257961984
     9999999933815812510711506376257961984 9999999933815812510711506376257961984 0 None
   = Some (Inl UndefinedConversion)"
  by (simp add: brightness_contrast_V2_def V2_grey_def upt_1 big_weighted big_sum fp_div_def
      fcast_u8_def)

lemma big_V1:
  "brightness_contrast_V1 [40, 0, 0] 1 1 9999999933815812510711506376257961984
     9999999933815812510711506376257961984 9999999933815812510711506376257961984 0 None
   = Some (Inr [13])"
proof -
  have "fl32 (9999999933815812510711506376257961984 / 30000001069098037760363920625477091328)
      = 5592405 / 16777216"
    by (subst fl32_eval[of "- 2"]) (simp_all add: rne_def)
  then have w: "fp_div f32 (Fin 9999999933815812510711506376257961984)
      (Fin 30000001069098037760363920625477091328) = Fin (5592405 / 16777216)"
    by (simp add: fp_div_def f32_def)
  have "fl32 (5592405 / 16777216 * 40) = 3495253 / 262144"
    by (subst fl32_eval[of 3]) (simp_all add: rne_def)
  then have p: "fp_mul f32 (Fin (5592405 / 16777216)) (Fin 40) = Fin (3495253 / 262144)"
    by (simp add: fp_mul_def f32_def)
  have e: "f32 (3495253 / 262144) = Fin (3495253 / 262144)"
    using f32_exact[of "3495253 / 262144" 3495253 "- 18"] by simp
  have "weighted (Fin (5592405 / 16777216)) (Fin (5592405 / 16777216)) (Fin (5592405 / 16777216))
      [40, 0, 0] 0 = Fin (3495253 / 262144)"
    by (simp add: weighted_def p fp_mul_zero fp_add_def e)
  then show ?thesis
    by (simp add: brightness_contrast_V1_def big_sum w V1_grey_def upt_1 fcast_u8_def cast_u8_def
        trunc_def)
qed

text \<open>
  C8: the weighted sum of a pixel is said to lie in [0, 256) in both scalar
  variants, so that the cast to \<^verbatim>\<open>uint8_t\<close> is defined. For the one-pixel image
  (40, 0, 0) and the three weights \<open>W\<close>, a \<^verbatim>\<open>float\<close>,
  \<^verbatim>\<open>brightness_contrast_V2\<close> multiplies the weight as passed with the channel
  value: the product is infinite, the quotient by the sum of the weights is
  infinite, and the cast is undefined. \<^verbatim>\<open>brightness_contrast_V1\<close>, which divides
  the weights by their sum first, stores 13.
\<close>

theorem V2_overflow:
  "is_f32 9999999933815812510711506376257961984
   \<and> brightness_contrast_V2 [40, 0, 0] 1 1 9999999933815812510711506376257961984
       9999999933815812510711506376257961984 9999999933815812510711506376257961984 0 None
     = Some (Inl UndefinedConversion)
   \<and> brightness_contrast_V1 [40, 0, 0] 1 1 9999999933815812510711506376257961984
       9999999933815812510711506376257961984 9999999933815812510711506376257961984 0 None
     = Some (Inr [13])"
  using big_weight big_V2 big_V1 by (simp add: is_f32_def)

subsection \<open>The vector code computes the scalar formula\<close>

lemma epi16_split: "epi16 (ucast w) (ucast (drop_bit 8 w)) = (w :: 16 word)"
  unfolding epi16_def
  by (rule bit_word_eqI) (auto simp add: bit_simps)

lemma lanes16_bytes16: "lanes16 (bytes16 ws) = ws"
  by (induction ws) (simp_all add: bytes16_def epi16_split)

lemma epi16_zero_hi: "epi16 x 0 = ucast x"
  by (simp add: epi16_def)

lemma set1_lanes: "lanes16 (mm_set1_epi16 w) = [w, w, w, w, w, w, w, w]"
  by (simp add: mm_set1_epi16_def lanes16_bytes16 eval_nat_numeral)

lemma grey16_explicit:
  assumes "mm_loadu_si128 img (3 * i) = [x0, x1, x2, x3, x4, x5, x6, x7, x8, x9, x10, x11, x12, x13, x14, x15]"
    and "mm_loadu_si128 img (3 * i + 16) = [x16, x17, x18, x19, x20, x21, x22, x23, x24, x25, x26, x27, x28, x29, x30, x31]"
    and "mm_loadu_si128 img (3 * i + 32) = [x32, x33, x34, x35, x36, x37, x38, x39, x40, x41, x42, x43, x44, x45, x46, x47]"
  shows "V0_grey16 img cs i =
    (bytes16 [grey_lane cs x0 x1 x2,
              grey_lane cs x3 x4 x5,
              grey_lane cs x6 x7 x8,
              grey_lane cs x9 x10 x11,
              grey_lane cs x12 x13 x14,
              grey_lane cs x15 x16 x17,
              grey_lane cs x18 x19 x20,
              grey_lane cs x21 x22 x23],
     bytes16 [grey_lane cs x24 x25 x26,
              grey_lane cs x27 x28 x29,
              grey_lane cs x30 x31 x32,
              grey_lane cs x33 x34 x35,
              grey_lane cs x36 x37 x38,
              grey_lane cs x39 x40 x41,
              grey_lane cs x42 x43 x44,
              grey_lane cs x45 x46 x47])"
proof -
  obtain c0 c1 c2 where cs: "cs = (c0, c1, c2)" by (cases cs)
  show ?thesis
    unfolding V0_grey16_def load_and_convert_to_grey16_def cs assms
    by (simp add: Let_def mm_shuffle_epi8_def mm_or_si128_def mm_mullo_epi16_def mm_add_epi16_def
        mm_srli_epi16_def set1_lanes lanes16_bytes16 epi16_zero_hi grey_lane_def
        mask_red1_def mask_red2_def mask_red3_def mask_red4_def
        mask_green1_def mask_green2_def mask_green3_def mask_green4_def
        mask_blue1_def mask_blue2_def mask_blue3_def mask_blue4_def add.assoc)
qed

lemma pack_explicit:
  "V0_pack (bytes16 [w0, w1, w2, w3, w4, w5, w6, w7], bytes16 [v0, v1, v2, v3, v4, v5, v6, v7])
   = [ucast w0, ucast w1, ucast w2, ucast w3, ucast w4, ucast w5, ucast w6, ucast w7,
      ucast v0, ucast v1, ucast v2, ucast v3, ucast v4, ucast v5, ucast v6, ucast v7]"
  by (simp add: V0_pack_def bytes16_def mm_shuffle_epi8_def mm_or_si128_def
      mask_grey_def mask_grey2_def)

lemma list48:
  assumes "length xs = 48"
  shows "xs = [xs ! 0, xs ! 1, xs ! 2, xs ! 3, xs ! 4, xs ! 5, xs ! 6, xs ! 7, xs ! 8, xs ! 9, xs ! 10, xs ! 11, xs ! 12, xs ! 13, xs ! 14, xs ! 15, xs ! 16, xs ! 17, xs ! 18, xs ! 19, xs ! 20, xs ! 21, xs ! 22, xs ! 23, xs ! 24, xs ! 25, xs ! 26, xs ! 27, xs ! 28, xs ! 29, xs ! 30, xs ! 31, xs ! 32, xs ! 33, xs ! 34, xs ! 35, xs ! 36, xs ! 37, xs ! 38, xs ! 39, xs ! 40, xs ! 41, xs ! 42, xs ! 43, xs ! 44, xs ! 45, xs ! 46, xs ! 47]"
proof -
  have "xs = map (nth xs) [0..<48]"
    using map_nth[of xs] assms by simp
  also have "\<dots> = [xs ! 0, xs ! 1, xs ! 2, xs ! 3, xs ! 4, xs ! 5, xs ! 6, xs ! 7, xs ! 8, xs ! 9, xs ! 10, xs ! 11, xs ! 12, xs ! 13, xs ! 14, xs ! 15, xs ! 16, xs ! 17, xs ! 18, xs ! 19, xs ! 20, xs ! 21, xs ! 22, xs ! 23, xs ! 24, xs ! 25, xs ! 26, xs ! 27, xs ! 28, xs ! 29, xs ! 30, xs ! 31, xs ! 32, xs ! 33, xs ! 34, xs ! 35, xs ! 36, xs ! 37, xs ! 38, xs ! 39, xs ! 40, xs ! 41, xs ! 42, xs ! 43, xs ! 44, xs ! 45, xs ! 46, xs ! 47]"
    by (simp add: upt_rec eval_nat_numeral)
  finally show ?thesis .
qed

lemma clamp16_explicit:
  "mm_max_epi16 mm_setzero_si128 (mm_min_epi16 (mm_set1_epi16 255)
     (mm_add_epi16 (bytes16 [w0, w1, w2, w3, w4, w5, w6, w7]) (mm_set1_epi16 brightness)))
   = bytes16 [clamp_lane (w0 + brightness), clamp_lane (w1 + brightness),
       clamp_lane (w2 + brightness), clamp_lane (w3 + brightness),
       clamp_lane (w4 + brightness), clamp_lane (w5 + brightness),
       clamp_lane (w6 + brightness), clamp_lane (w7 + brightness)]"
proof -
  have z: "lanes16 mm_setzero_si128 = [0, 0, 0, 0, 0, 0, 0, 0]"
    by (simp add: mm_setzero_si128_def eval_nat_numeral epi16_def)
  show ?thesis
    by (simp add: mm_add_epi16_def mm_min_epi16_def mm_max_epi16_def set1_lanes
        lanes16_bytes16 z clamp_lane_def Let_def)
qed

lemma block_facts:
  assumes "3 * i + 48 \<le> length img"
  defines "blk \<equiv> take 48 (drop (3 * i) img)"
  shows "mm_loadu_si128 img (3 * i) = [blk ! 0, blk ! 1, blk ! 2, blk ! 3, blk ! 4, blk ! 5, blk ! 6, blk ! 7, blk ! 8, blk ! 9, blk ! 10, blk ! 11, blk ! 12, blk ! 13, blk ! 14, blk ! 15]"
    and "mm_loadu_si128 img (3 * i + 16) = [blk ! 16, blk ! 17, blk ! 18, blk ! 19, blk ! 20, blk ! 21, blk ! 22, blk ! 23, blk ! 24, blk ! 25, blk ! 26, blk ! 27, blk ! 28, blk ! 29, blk ! 30, blk ! 31]"
    and "mm_loadu_si128 img (3 * i + 32) = [blk ! 32, blk ! 33, blk ! 34, blk ! 35, blk ! 36, blk ! 37, blk ! 38, blk ! 39, blk ! 40, blk ! 41, blk ! 42, blk ! 43, blk ! 44, blk ! 45, blk ! 46, blk ! 47]"
    and "triples blk = [(blk ! 0, blk ! 1, blk ! 2), (blk ! 3, blk ! 4, blk ! 5), (blk ! 6, blk ! 7, blk ! 8), (blk ! 9, blk ! 10, blk ! 11), (blk ! 12, blk ! 13, blk ! 14), (blk ! 15, blk ! 16, blk ! 17), (blk ! 18, blk ! 19, blk ! 20), (blk ! 21, blk ! 22, blk ! 23), (blk ! 24, blk ! 25, blk ! 26), (blk ! 27, blk ! 28, blk ! 29), (blk ! 30, blk ! 31, blk ! 32), (blk ! 33, blk ! 34, blk ! 35), (blk ! 36, blk ! 37, blk ! 38), (blk ! 39, blk ! 40, blk ! 41), (blk ! 42, blk ! 43, blk ! 44), (blk ! 45, blk ! 46, blk ! 47)]"
proof -
  have len: "length blk = 48"
    using assms(1) by (simp add: blk_def)
  note e = list48[OF len]
  have "mm_loadu_si128 img (3 * i) = take 16 blk"
    by (simp add: mm_loadu_si128_def blk_def)
  also have "\<dots> = take 16 [blk ! 0, blk ! 1, blk ! 2, blk ! 3, blk ! 4, blk ! 5, blk ! 6, blk ! 7, blk ! 8, blk ! 9, blk ! 10, blk ! 11, blk ! 12, blk ! 13, blk ! 14, blk ! 15, blk ! 16, blk ! 17, blk ! 18, blk ! 19, blk ! 20, blk ! 21, blk ! 22, blk ! 23, blk ! 24, blk ! 25, blk ! 26, blk ! 27, blk ! 28, blk ! 29, blk ! 30, blk ! 31, blk ! 32, blk ! 33, blk ! 34, blk ! 35, blk ! 36, blk ! 37, blk ! 38, blk ! 39, blk ! 40, blk ! 41, blk ! 42, blk ! 43, blk ! 44, blk ! 45, blk ! 46, blk ! 47]"
    by (rule arg_cong[OF e])
  finally show "mm_loadu_si128 img (3 * i) = [blk ! 0, blk ! 1, blk ! 2, blk ! 3, blk ! 4, blk ! 5, blk ! 6, blk ! 7, blk ! 8, blk ! 9, blk ! 10, blk ! 11, blk ! 12, blk ! 13, blk ! 14, blk ! 15]"
    by simp
  have "mm_loadu_si128 img (3 * i + 16) = take 16 (drop 16 blk)"
    by (simp add: mm_loadu_si128_def blk_def drop_take ac_simps)
  also have "\<dots> = take 16 (drop 16 [blk ! 0, blk ! 1, blk ! 2, blk ! 3, blk ! 4, blk ! 5, blk ! 6, blk ! 7, blk ! 8, blk ! 9, blk ! 10, blk ! 11, blk ! 12, blk ! 13, blk ! 14, blk ! 15, blk ! 16, blk ! 17, blk ! 18, blk ! 19, blk ! 20, blk ! 21, blk ! 22, blk ! 23, blk ! 24, blk ! 25, blk ! 26, blk ! 27, blk ! 28, blk ! 29, blk ! 30, blk ! 31, blk ! 32, blk ! 33, blk ! 34, blk ! 35, blk ! 36, blk ! 37, blk ! 38, blk ! 39, blk ! 40, blk ! 41, blk ! 42, blk ! 43, blk ! 44, blk ! 45, blk ! 46, blk ! 47])"
    by (rule arg_cong[OF e])
  finally show "mm_loadu_si128 img (3 * i + 16) = [blk ! 16, blk ! 17, blk ! 18, blk ! 19, blk ! 20, blk ! 21, blk ! 22, blk ! 23, blk ! 24, blk ! 25, blk ! 26, blk ! 27, blk ! 28, blk ! 29, blk ! 30, blk ! 31]"
    by simp
  have "mm_loadu_si128 img (3 * i + 32) = take 16 (drop 32 blk)"
    by (simp add: mm_loadu_si128_def blk_def drop_take ac_simps)
  also have "\<dots> = take 16 (drop 32 [blk ! 0, blk ! 1, blk ! 2, blk ! 3, blk ! 4, blk ! 5, blk ! 6, blk ! 7, blk ! 8, blk ! 9, blk ! 10, blk ! 11, blk ! 12, blk ! 13, blk ! 14, blk ! 15, blk ! 16, blk ! 17, blk ! 18, blk ! 19, blk ! 20, blk ! 21, blk ! 22, blk ! 23, blk ! 24, blk ! 25, blk ! 26, blk ! 27, blk ! 28, blk ! 29, blk ! 30, blk ! 31, blk ! 32, blk ! 33, blk ! 34, blk ! 35, blk ! 36, blk ! 37, blk ! 38, blk ! 39, blk ! 40, blk ! 41, blk ! 42, blk ! 43, blk ! 44, blk ! 45, blk ! 46, blk ! 47])"
    by (rule arg_cong[OF e])
  finally show "mm_loadu_si128 img (3 * i + 32) = [blk ! 32, blk ! 33, blk ! 34, blk ! 35, blk ! 36, blk ! 37, blk ! 38, blk ! 39, blk ! 40, blk ! 41, blk ! 42, blk ! 43, blk ! 44, blk ! 45, blk ! 46, blk ! 47]"
    by simp
  have "triples blk = triples [blk ! 0, blk ! 1, blk ! 2, blk ! 3, blk ! 4, blk ! 5, blk ! 6, blk ! 7, blk ! 8, blk ! 9, blk ! 10, blk ! 11, blk ! 12, blk ! 13, blk ! 14, blk ! 15, blk ! 16, blk ! 17, blk ! 18, blk ! 19, blk ! 20, blk ! 21, blk ! 22, blk ! 23, blk ! 24, blk ! 25, blk ! 26, blk ! 27, blk ! 28, blk ! 29, blk ! 30, blk ! 31, blk ! 32, blk ! 33, blk ! 34, blk ! 35, blk ! 36, blk ! 37, blk ! 38, blk ! 39, blk ! 40, blk ! 41, blk ! 42, blk ! 43, blk ! 44, blk ! 45, blk ! 46, blk ! 47]"
    by (rule arg_cong[OF e])
  then show "triples blk = [(blk ! 0, blk ! 1, blk ! 2), (blk ! 3, blk ! 4, blk ! 5), (blk ! 6, blk ! 7, blk ! 8), (blk ! 9, blk ! 10, blk ! 11), (blk ! 12, blk ! 13, blk ! 14), (blk ! 15, blk ! 16, blk ! 17), (blk ! 18, blk ! 19, blk ! 20), (blk ! 21, blk ! 22, blk ! 23), (blk ! 24, blk ! 25, blk ! 26), (blk ! 27, blk ! 28, blk ! 29), (blk ! 30, blk ! 31, blk ! 32), (blk ! 33, blk ! 34, blk ! 35), (blk ! 36, blk ! 37, blk ! 38), (blk ! 39, blk ! 40, blk ! 41), (blk ! 42, blk ! 43, blk ! 44), (blk ! 45, blk ! 46, blk ! 47)]"
    by simp
qed

lemma pack_grey16:
  assumes "3 * i + 48 \<le> length img"
  shows "V0_pack (V0_grey16 img cs i)
    = map (\<lambda>(r, g, b). ucast (grey_lane cs r g b)) (triples (take 48 (drop (3 * i) img)))"
  unfolding grey16_explicit[OF block_facts(1-3)[OF assms]] pack_explicit block_facts(4)[OF assms]
  by simp

lemma pack_grey16_bright:
  assumes "3 * i + 48 \<le> length img"
  shows "V0_pack (V0_grey16_bright img cs brightness i)
    = map (\<lambda>(r, g, b). ucast (clamp_lane (grey_lane cs r g b + brightness)))
        (triples (take 48 (drop (3 * i) img)))"
  unfolding V0_grey16_bright_def Let_def grey16_explicit[OF block_facts(1-3)[OF assms]]
    prod.case clamp16_explicit pack_explicit block_facts(4)[OF assms]
  by simp

lemma uint_byte_le: "uint (r :: 8 word) \<le> 255"
  using uint_bounded[of r] by simp

lemma uint_ucast_8_16: "uint (ucast (r :: 8 word) :: 16 word) = uint r"
  by (simp add: uint_up_ucast is_up)

lemma uint_drop_bit8: "uint (drop_bit 8 (w :: 16 word)) = uint w div 256"
  by (simp add: uint_div drop_bit_eq_div)

lemma weighted_int_bounds:
  assumes "total cs = 256"
  shows "0 \<le> weighted_int cs r g b" and "weighted_int cs r g b \<le> 65280"
proof -
  obtain c0 c1 c2 where cs: "cs = (c0, c1, c2)" by (cases cs)
  have t: "uint c0 + uint c1 + uint c2 = 256" using assms by (simp add: total_def cs)
  show "0 \<le> weighted_int cs r g b" by (simp add: weighted_int_def cs)
  have "uint c0 * uint r \<le> uint c0 * 255" "uint c1 * uint g \<le> uint c1 * 255"
    "uint c2 * uint b \<le> uint c2 * 255"
    by (simp_all add: mult_left_mono uint_byte_le)
  then show "weighted_int cs r g b \<le> 65280"
    using t by (simp add: weighted_int_def cs)
qed

lemma uint_grey_lane:
  assumes "total cs = 256"
  shows "uint (grey_lane cs r g b) = weighted_int cs r g b div 256"
proof -
  obtain c0 c1 c2 where cs: "cs = (c0, c1, c2)" by (cases cs)
  have "uint (ucast r * c0 + ucast g * c1 + ucast b * c2 :: 16 word)
      = weighted_int cs r g b mod 65536"
    by (simp add: uint_word_ariths uint_ucast_8_16 weighted_int_def cs mod_simps mult.commute)
  also have "\<dots> = weighted_int cs r g b"
    using weighted_int_bounds[OF assms, of r g b] by simp
  finally show ?thesis
    by (simp add: grey_lane_def cs uint_drop_bit8)
qed

lemma grey_lane_le:
  assumes "total cs = 256"
  shows "0 \<le> weighted_int cs r g b div 256" "weighted_int cs r g b div 256 \<le> 255"
  using weighted_int_bounds[OF assms, of r g b] by simp_all

lemma V0_rest_triple:
  "V0_rest img cs i = word_of_int (grey_int cs (img ! (i * 3), img ! (i * 3 + 1), img ! (i * 3 + 2)))"
  by (cases cs) (simp add: V0_rest_def weighted_int_def grey_int_def)

lemma grey_lane_eq:
  assumes "total cs = 256"
  shows "grey_lane cs r g b = word_of_int (weighted_int cs r g b div 256)"
  using uint_grey_lane[OF assms, of r g b] by (metis word_of_int_uint)

lemma ucast_clamp_lane: "ucast (clamp_lane x) = clamp_i16 x"
  by (simp add: clamp_lane_def clamp_i16_def Let_def)

subsection \<open>The buffer as a map over the pixels\<close>

lemma length_triples: "length (triples xs) = length xs div 3"
  by (induction xs rule: triples.induct) simp_all

lemma triples_nth:
  "i < length xs div 3 \<Longrightarrow> triples xs ! i = (xs ! (i * 3), xs ! (i * 3 + 1), xs ! (i * 3 + 2))"
proof (induction xs arbitrary: i rule: triples.induct)
  case (1 r g b xs)
  then show ?case by (cases i) simp_all
qed simp_all

lemma triples_drop: "triples (drop (3 * i) xs) = drop i (triples xs)"
proof (induction xs arbitrary: i rule: triples.induct)
  case (1 r g b xs)
  show ?case
  proof (cases i)
    case 0
    then show ?thesis by simp
  next
    case (Suc j)
    then have e: "3 * i = Suc (Suc (Suc (3 * j)))" by simp
    show ?thesis unfolding e using 1[of j] Suc by simp
  qed
next
  case 2
  then show ?case by simp
next
  case (3 r)
  then show ?case by (cases i) simp_all
next
  case (4 r g)
  then show ?case by (cases i) simp_all
qed

lemma triples_take: "triples (take (3 * n) xs) = take n (triples xs)"
proof (induction xs arbitrary: n rule: triples.induct)
  case (1 r g b xs)
  show ?case
  proof (cases n)
    case 0
    then show ?thesis by simp
  next
    case (Suc j)
    then have e: "3 * n = Suc (Suc (Suc (3 * j)))" by simp
    show ?thesis unfolding e using 1[of j] Suc by simp
  qed
next
  case 2
  then show ?case by simp
next
  case (3 r)
  then show ?case by (cases n) simp_all
next
  case (4 r g)
  then show ?case by (cases n) simp_all
qed

lemma concat_chunks:
  "concat (map (\<lambda>i. take 16 (drop i ys)) (map (\<lambda>k. 16 * k) [0..<n])) = take (16 * n) ys"
proof (induction n)
  case 0
  then show ?case by simp
next
  case (Suc n)
  have "take (16 * Suc n) ys = take (16 * n) ys @ take 16 (drop (16 * n) ys)"
    by (simp add: take_add[symmetric] add.commute)
  then show ?case using Suc by simp
qed

lemma map_nth_upt_drop:
  "lo \<le> length ys \<Longrightarrow> map (\<lambda>i. f (ys ! i)) [lo..<length ys] = map f (drop lo ys)"
  by (intro nth_equalityI) simp_all

lemma map_nth_triples:
  assumes "length img = 3 * wh"
  shows "map (\<lambda>i. f (img ! (i * 3), img ! (i * 3 + 1), img ! (i * 3 + 2))) [lo..<wh]
       = map f (drop lo (triples img))"
proof -
  have len: "length (triples img) = wh" using assms by (simp add: length_triples)
  show ?thesis
    using assms by (intro nth_equalityI) (simp_all add: len triples_nth)
qed

lemma simd_blocks:
  assumes "length img = 3 * wh"
    and "\<And>i. 3 * i + 48 \<le> length img \<Longrightarrow> F i = map f (triples (take 48 (drop (3 * i) img)))"
  shows "concat (map F (simd_indices wh)) = map f (take (wh - wh mod 16) (triples img))"
proof -
  let ?n = "(wh - wh mod 16) div 16"
  have n16: "16 * ?n = wh - wh mod 16"
    by (simp add: minus_mod_eq_mult_div)
  have a: "map F (simd_indices wh) = map (\<lambda>i. map f (take 16 (drop i (triples img)))) (simd_indices wh)"
  proof (rule map_cong[OF refl])
    fix i assume "i \<in> set (simd_indices wh)"
    then obtain k where k: "i = 16 * k" "k < ?n" by (auto simp: simd_indices_def)
    then have "16 * k + 16 \<le> 16 * ?n" by simp
    then have b: "3 * i + 48 \<le> length img" using k n16 assms(1) by simp
    have "triples (take 48 (drop (3 * i) img)) = take 16 (drop i (triples img))"
      using triples_take[of 16 "drop (3 * i) img"] by (simp add: triples_drop)
    then show "F i = map f (take 16 (drop i (triples img)))"
      using assms(2)[OF b] by simp
  qed
  have "concat (map F (simd_indices wh))
      = concat (map (\<lambda>i. map f (take 16 (drop i (triples img)))) (simd_indices wh))"
    by (simp only: a)
  also have "\<dots> = map f (concat (map (\<lambda>i. take 16 (drop i (triples img))) (simd_indices wh)))"
    by (simp add: map_concat comp_def)
  also have "\<dots> = map f (take (16 * ?n) (triples img))"
    unfolding simd_indices_def concat_chunks ..
  finally show ?thesis by (simp only: n16)
qed

lemma those_map_Some: "those (map (\<lambda>x. Some (f x)) xs) = Some (map f xs)"
  by (induction xs) simp_all

lemma real_byte_bounds: "0 \<le> (unsigned (r :: 8 word) :: real)" "(unsigned (r :: 8 word) :: real) \<le> 255"
proof -
  have e: "(unsigned r :: real) = real_of_int (uint r)"
    by simp
  show "0 \<le> (unsigned r :: real)"
    unfolding e by (simp only: of_int_0_le_iff uint_ge_0)
  have "uint r \<le> 255" by (rule uint_byte_le)
  then show "(unsigned r :: real) \<le> 255"
    unfolding e by linarith
qed

lemma mix_bounds:
  assumes "0 \<le> a" "0 \<le> b" "0 \<le> c" "a + b + c = 1"
  shows "0 \<le> mix a b c p" and "mix a b c p \<le> 255"
proof -
  obtain r g b' where p: "p = (r, g, b')" by (cases p)
  show "0 \<le> mix a b c p"
    using assms by (simp add: mix_def p real_byte_bounds)
  have "a * unsigned r \<le> a * 255" "b * unsigned g \<le> b * 255" "c * unsigned b' \<le> c * 255"
    using assms real_byte_bounds(2) by (simp_all add: mult_left_mono)
  then have "mix a b c p \<le> (a + b + c) * 255"
    by (simp add: mix_def p algebra_simps)
  then show "mix a b c p \<le> 255"
    using assms by simp
qed

lemma cast_u8_floor:
  assumes "0 \<le> x" "x \<le> 255"
  shows "cast_u8 x = Some (word_of_int \<lfloor>x\<rfloor>)"
  using assms by (simp add: cast_u8_def trunc_def)

lemma clamp_int_range: "0 \<le> clamp_int k" "clamp_int k \<le> 255"
  by (simp_all add: clamp_int_def)

lemma uint_word_of_int_byte:
  assumes "0 \<le> k" "k \<le> 255"
  shows "uint (word_of_int k :: 8 word) = k"
  using assms by (simp add: uint_word_of_int)

lemma uint_clamp_int: "uint (word_of_int (clamp_int k) :: 8 word) = clamp_int k"
  by (rule uint_word_of_int_byte) (rule clamp_int_range)+

lemma clamp_u8_of_int: "clamp_u8 (real_of_int k) = word_of_int (clamp_int k)"
  by (simp add: clamp_u8_def clamp_int_def trunc_def max_def min_def)

lemma clamp_u8_add_int: "clamp_u8 (x + real_of_int n) = word_of_int (clamp_int (\<lfloor>x\<rfloor> + n))"
proof -
  have f: "\<lfloor>x + real_of_int n\<rfloor> = \<lfloor>x\<rfloor> + n" by simp
  consider "x + real_of_int n > 255" | "x + real_of_int n < 0"
    | "0 \<le> x + real_of_int n" "x + real_of_int n \<le> 255"
    by linarith
  then show ?thesis
  proof cases
    case 1
    then have "real_of_int 255 \<le> x + real_of_int n" by simp
    then have "255 \<le> \<lfloor>x + real_of_int n\<rfloor>" by (simp only: le_floor_iff)
    then have "255 \<le> \<lfloor>x\<rfloor> + n" by (simp only: f)
    then show ?thesis using 1 by (simp add: clamp_u8_def clamp_int_def)
  next
    case 2
    then have "x + real_of_int n < real_of_int 0" by simp
    then have "\<lfloor>x + real_of_int n\<rfloor> < 0" by (simp only: floor_less_iff)
    then have "\<lfloor>x\<rfloor> + n < 0" by (simp only: f)
    then show ?thesis using 2 by (simp add: clamp_u8_def clamp_int_def max_def min_def)
  next
    case 3
    then have "real_of_int 0 \<le> x + real_of_int n" "x + real_of_int n < real_of_int 255 + 1" by simp_all
    then have "0 \<le> \<lfloor>x + real_of_int n\<rfloor>" "\<lfloor>x + real_of_int n\<rfloor> \<le> 255"
      by (simp_all only: le_floor_iff floor_le_iff)
    then have "0 \<le> \<lfloor>x\<rfloor> + n" "\<lfloor>x\<rfloor> + n \<le> 255" by (simp_all only: f)
    then show ?thesis using 3 by (simp add: clamp_u8_def clamp_int_def trunc_def max_def min_def)
  qed
qed

lemma floor_mix_range:
  assumes "0 \<le> a" "0 \<le> b" "0 \<le> c" "a + b + c = 1"
  shows "0 \<le> \<lfloor>mix a b c p\<rfloor>" "\<lfloor>mix a b c p\<rfloor> \<le> 255"
  using mix_bounds[OF assms, of p] by (simp_all add: le_floor_iff floor_le_iff)

lemma sint_word_of_int16:
  "- 32768 \<le> k \<Longrightarrow> k < 32768 \<Longrightarrow> sint (word_of_int k :: 16 word) = k"
  by (simp add: sint_sbintrunc' signed_take_bit_int_eq_self)

lemma ucast_16_8_wi: "(ucast (word_of_int k :: 16 word) :: 8 word) = word_of_int k"
  by (simp add: ucast_down_wi is_down)

lemma clamp_i16_word_of_int:
  assumes "- 32768 \<le> k" "k < 32768"
  shows "clamp_i16 (word_of_int k) = word_of_int (clamp_int k)"
  using assms
  by (simp add: clamp_i16_def sint_word_of_int16 ucast_16_8_wi clamp_int_def max_def min_def)

lemma clamp_i16_add:
  assumes "0 \<le> G" "G \<le> 255" "- 255 \<le> sint brightness" "sint brightness \<le> 255"
  shows "clamp_i16 (word_of_int G + brightness) = word_of_int (clamp_int (G + sint brightness))"
proof -
  have "word_of_int G + brightness = (word_of_int (G + sint brightness) :: 16 word)"
    by (simp add: wi_hom_syms)
  then show ?thesis
    using assms by (simp only: clamp_i16_word_of_int)
qed

lemma grey_int_range:
  assumes "total cs = 256"
  shows "0 \<le> grey_int cs p" "grey_int cs p \<le> 255"
  using grey_lane_le[OF assms] by (cases p; simp add: grey_int_def)+

lemma V0_grey_map:
  assumes "length img = 3 * wh" "total cs = 256"
  shows "concat (map (\<lambda>i. V0_pack (V0_grey16 img cs i)) (simd_indices wh))
           @ map (\<lambda>i. ucast (V0_rest img cs i)) (rest_indices wh)
       = map (\<lambda>p. word_of_int (grey_int cs p)) (triples img)"
proof -
  let ?f = "\<lambda>p. word_of_int (grey_int cs p) :: 8 word"
  have f: "(\<lambda>(r, g, b). ucast (grey_lane cs r g b)) = ?f"
    by (rule ext) (simp add: grey_lane_eq[OF assms(2)] ucast_16_8_wi grey_int_def split: prod.splits)
  have "concat (map (\<lambda>i. V0_pack (V0_grey16 img cs i)) (simd_indices wh))
      = map ?f (take (wh - wh mod 16) (triples img))"
    by (rule simd_blocks[OF assms(1)]) (simp only: pack_grey16 f)
  moreover
  have "map (\<lambda>i. ucast (V0_rest img cs i)) (rest_indices wh)
      = map ?f (drop (wh - wh mod 16) (triples img))"
    unfolding rest_indices_def V0_rest_triple ucast_16_8_wi
    by (rule map_nth_triples[OF assms(1)])
  ultimately show ?thesis
    by (simp only: map_append[symmetric] append_take_drop_id)
qed

lemma V0_bright_map:
  assumes "length img = 3 * wh" "total cs = 256"
    "- 255 \<le> sint brightness" "sint brightness \<le> 255"
  shows "concat (map (\<lambda>i. V0_pack (V0_grey16_bright img cs brightness i)) (simd_indices wh))
           @ map (\<lambda>i. clamp_i16 (V0_rest img cs i + brightness)) (rest_indices wh)
       = map (\<lambda>p. word_of_int (clamp_int (grey_int cs p + sint brightness))) (triples img)"
proof -
  let ?f = "\<lambda>p. word_of_int (clamp_int (grey_int cs p + sint brightness)) :: 8 word"
  have g: "\<And>p. clamp_i16 (word_of_int (grey_int cs p) + brightness)
      = word_of_int (clamp_int (grey_int cs p + sint brightness))"
    by (rule clamp_i16_add[OF grey_int_range[OF assms(2)] assms(3,4)])
  have f: "(\<lambda>(r, g, b). ucast (clamp_lane (grey_lane cs r g b + brightness))) = ?f"
  proof (rule ext)
    fix p :: "uint8_t \<times> uint8_t \<times> uint8_t"
    obtain r g b where p: "p = (r, g, b)" by (cases p)
    have "grey_lane cs r g b = word_of_int (grey_int cs p)"
      by (simp add: grey_lane_eq[OF assms(2)] grey_int_def p)
    then show "(case p of (r, g, b) \<Rightarrow> ucast (clamp_lane (grey_lane cs r g b + brightness))) = ?f p"
      by (simp add: p ucast_clamp_lane g)
  qed
  have "concat (map (\<lambda>i. V0_pack (V0_grey16_bright img cs brightness i)) (simd_indices wh))
      = map ?f (take (wh - wh mod 16) (triples img))"
    by (rule simd_blocks[OF assms(1)]) (simp only: pack_grey16_bright f)
  moreover
  have "map (\<lambda>i. clamp_i16 (V0_rest img cs i + brightness)) (rest_indices wh)
      = map ?f (drop (wh - wh mod 16) (triples img))"
    unfolding rest_indices_def V0_rest_triple g
    by (rule map_nth_triples[OF assms(1)])
  ultimately show ?thesis
    by (simp only: map_append[symmetric] append_take_drop_id)
qed

subsection \<open>Integer against real weights\<close>

lemma clamp_int_id: "0 \<le> k \<Longrightarrow> k \<le> 255 \<Longrightarrow> clamp_int k = k"
  by (simp add: clamp_int_def)

lemma clamp_int_close: "\<bar>k - l\<bar> \<le> 1 \<Longrightarrow> \<bar>clamp_int (k + n) - clamp_int (l + n)\<bar> \<le> 1"
  unfolding clamp_int_def by arith

lemma floor_close: "\<bar>x - y\<bar> < 1 \<Longrightarrow> \<bar>\<lfloor>x :: real\<rfloor> - \<lfloor>y\<rfloor>\<bar> \<le> 1"
  by linarith

lemma scaled_upper:
  assumes "0 \<le> X" "X \<le> (255 :: real)"
  shows "e * X \<le> 255 * max 0 e" and "255 * min 0 e \<le> e * X"
proof -
  show "e * X \<le> 255 * max 0 e"
  proof (cases "0 \<le> e")
    case True
    then have "e * X \<le> e * 255" using assms by (intro mult_left_mono)
    then show ?thesis using True by (simp add: max_def)
  next
    case False
    then have "e * X \<le> 0" using assms by (simp add: mult_le_0_iff)
    then show ?thesis using False by (simp add: max_def)
  qed
  show "255 * min 0 e \<le> e * X"
  proof (cases "0 \<le> e")
    case True
    then have "0 \<le> e * X" using assms by simp
    then show ?thesis using True by (simp add: min_def)
  next
    case False
    then have "e * 255 \<le> e * X" using assms by (intro mult_left_mono_neg) simp_all
    then show ?thesis using False by (simp add: min_def)
  qed
qed

lemma error_bound:
  fixes e1 e2 e3 :: real
  assumes "e1 + e2 + e3 = 0" "\<bar>e1\<bar> < 1" "\<bar>e2\<bar> < 1" "\<bar>e3\<bar> < 1"
    and "0 \<le> X1" "X1 \<le> 255" "0 \<le> X2" "X2 \<le> 255" "0 \<le> X3" "X3 \<le> 255"
  shows "\<bar>e1 * X1 + e2 * X2 + e3 * X3\<bar> < 256"
proof -
  define D where "D = e1 * X1 + e2 * X2 + e3 * X3"
  define P where "P = max 0 e1 + max 0 e2 + max 0 e3"
  define N where "N = min 0 e1 + min 0 e2 + min 0 e3"
  have u: "D \<le> 255 * P"
    unfolding D_def P_def
    using scaled_upper(1)[OF assms(5,6), of e1] scaled_upper(1)[OF assms(7,8), of e2]
      scaled_upper(1)[OF assms(9,10), of e3] by simp
  have l: "255 * N \<le> D"
    unfolding D_def N_def
    using scaled_upper(2)[OF assms(5,6), of e1] scaled_upper(2)[OF assms(7,8), of e2]
      scaled_upper(2)[OF assms(9,10), of e3] by simp
  have "P < 1" "- 1 < N"
    unfolding P_def N_def using assms(1-4) by arith+
  then have "\<bar>D\<bar> < 256" using u l by linarith
  then show ?thesis by (simp only: D_def)
qed

lemma within1_map:
  assumes "\<And>p. \<bar>uint (f p) - uint (g p)\<bar> \<le> 1"
  shows "within1 (map f ps) (map g ps)"
  using assms by (simp add: within1_def list_all2_map1 list_all2_map2 list_all2_same)

lemma adjust_loop_total:
  assumes "adjust_loop a b c n cs = Some y"
  shows "total (snd y) = 256"
  by (rule adjust_loop.raw_induct[where P = "\<lambda>a b c n cs y. total (snd y) = 256", OF _ assms])
    (auto split: if_splits)

lemma convert_total:
  "convert_coeffs_to_max256 a b c = Some (Inr cs) \<Longrightarrow> total cs = 256"
  using adjust_loop_total
  by (fastforce simp add: convert_coeffs_to_max256_def split: option.splits)

lemma V0_unset:
  assumes "convert_coeffs_to_max256 a b c = Some (Inr cs)"
    and "length img = 3 * (width * height)"
    and "- 255 \<le> sint brightness" "sint brightness \<le> 255"
  shows "brightness_contrast_V0 img width height a b c brightness None
       = Some (Inr (map (\<lambda>p. word_of_int (clamp_int (grey_int cs p + sint brightness)))
           (triples img)))"
proof (cases "brightness = 0")
  case True
  have t: "total cs = 256" by (rule convert_total[OF assms(1)])
  have "\<And>p. clamp_int (grey_int cs p) = grey_int cs p"
    by (rule clamp_int_id[OF grey_int_range[OF t]])
  then show ?thesis
    using True by (simp add: brightness_contrast_V0_def Let_def assms(1) V0_grey_map[OF assms(2) t])
next
  case False
  have t: "total cs = 256" by (rule convert_total[OF assms(1)])
  show ?thesis
    using False by (simp add: brightness_contrast_V0_def Let_def assms(1)
        V0_bright_map[OF assms(2) t assms(3,4)])
qed

subsection \<open>The brightness stage\<close>






























subsection \<open>The three variants with a contrast\<close>

lemma sqrtHeron_1: "sqrtHeron (Fin 1) = Some (Fin 1)"
  by (simp add: sqrtHeron_def heron_loop.simps)

lemma factors_var_1: "contrast_factors k m 1 = Some (Inr (k, (1 - k) * m))"
  by (simp add: contrast_factors_def sqrtHeron_1)

lemma factors_var_0: "contrast_factors k m 0 = Some (Inr (0, m))"
  by (simp add: contrast_factors_def)

lemma lookup_V1_nth: "i < 256 \<Longrightarrow> lookup_V1 k s ! i = clamp_u8 (k * real i + s)"
  by (simp add: lookup_V1_def)

text \<open>
  With the weights (201/512, 199/512, 7/32) every operation of the grayscale
  stage is exact.
\<close>

lemma cex_sum: "weight_sum (201 / 512) (199 / 512) (7 / 32) = Fin 1"
  using f32_exact[of "25 / 32" 25 "- 5"] f32_exact[of 1 1 0]
  by (simp add: weight_sum_def fp_add_def)

lemma cex_exact:
  "f32 (201 / 512) = Fin (201 / 512)" "f32 (199 / 512) = Fin (199 / 512)"
  "f32 (7 / 32) = Fin (7 / 32)" "f32 (51255 / 512) = Fin (51255 / 512)"
  "f32 (35 / 32) = Fin (35 / 32)" "f32 (51815 / 512) = Fin (51815 / 512)"
  "f32 (50745 / 512) = Fin (50745 / 512)" "f32 (7 / 16) = Fin (7 / 16)"
  "f32 (50969 / 512) = Fin (50969 / 512)"
  using f32_exact[of "201 / 512" 201 "- 9"] f32_exact[of "199 / 512" 199 "- 9"]
    f32_exact[of "7 / 32" 7 "- 5"] f32_exact[of "51255 / 512" 51255 "- 9"]
    f32_exact[of "35 / 32" 35 "- 5"] f32_exact[of "51815 / 512" 51815 "- 9"]
    f32_exact[of "50745 / 512" 50745 "- 9"] f32_exact[of "7 / 16" 7 "- 4"]
    f32_exact[of "50969 / 512" 50969 "- 9"]
  by simp_all

lemma cex_weighted:
  "weighted (Fin (201 / 512)) (Fin (199 / 512)) (Fin (7 / 32)) [255, 0, 5, 0, 255, 2] 0
     = Fin (51815 / 512)"
  "weighted (Fin (201 / 512)) (Fin (199 / 512)) (Fin (7 / 32)) [255, 0, 5, 0, 255, 2] (Suc 0)
     = Fin (50969 / 512)"
  by (simp_all add: weighted_def fp_mul_def fp_add_def f32_zero cex_exact)

lemma cex_v1: "brightness_contrast_V1 [255, 0, 5, 0, 255, 2] 2 1 (201 / 512) (199 / 512) (7 / 32) 0 (Some 255) = Some (Inr [255, 0])"
  by (simp add: brightness_contrast_V1_def cex_sum fp_div_def cex_exact cex_weighted V1_grey_def
      fcast_u8_def cast_u8_def trunc_def upt_2
      V1_contrast_def variance_sum_def factors_var_1 lookup_V1_nth clamp_u8_def)

lemma cex_v2: "brightness_contrast_V2 [255, 0, 5, 0, 255, 2] 2 1 (201 / 512) (199 / 512) (7 / 32) 0 (Some 255) = Some (Inr [255, 0])"
  by (simp add: brightness_contrast_V2_def V2_grey_def cex_sum fp_div_def cex_exact cex_weighted
      fcast_u8_def cast_u8_def trunc_def upt_2
      V2_contrast_def variance_sum_def factors_var_1 clamp_u8_def)

lemma lookup_V0_flat:
  assumes "- 32769 < s" "s < 32768"
  shows "lookup_V0 0 s = Some (map (\<lambda>i. clamp_i16 (word_of_int (trunc s))) [0..<256])"
  using assms by (simp add: lookup_V0_def cast_i16_def those_map_Some)

lemma cex_init: "init_coeffs (201 / 512) (199 / 512) (7 / 32) = Some (100, 99, 56)"
proof -
  have e: "f32 (201 / 2) = Fin (201 / 2)" "f32 (199 / 2) = Fin (199 / 2)" "f32 56 = Fin 56"
    using f32_exact[of "201 / 2" 201 "- 1"] f32_exact[of "199 / 2" 199 "- 1"]
      f32_exact[of 56 56 0] by simp_all
  show ?thesis
    by (simp add: init_coeffs_def cex_sum init_coeff_def fp_div_def fp_mul_def cex_exact e
        fcast_u16_def trunc_def)
qed

lemma cex_adjust: "adjust (201 / 512) (199 / 512) (7 / 32) (100, 99, 56) = (100, 100, 56)"
proof -
  have e: "f64 (201 / 2) = Fin (201 / 2)" "f64 (199 / 2) = Fin (199 / 2)" "f64 56 = Fin 56"
    "f64 (1 / 2) = Fin (1 / 2)" "f64 0 = Fin 0"
    using f64_exact[of "201 / 2" 201 "- 1"] f64_exact[of "199 / 2" 199 "- 1"]
      f64_exact[of 56 56 0] f64_exact[of "1 / 2" 1 "- 1"] f64_exact[of 0 0 0] by simp_all
  have h: "f32 (1 / 2) = Fin (1 / 2)"
    using f32_exact[of "1 / 2" 1 "- 1"] by simp
  have d: "coeff_diff (201 / 512) (Fin 1) 100 = Fin (1 / 2)"
    "coeff_diff (199 / 512) (Fin 1) 99 = Fin (1 / 2)"
    "coeff_diff (7 / 32) (Fin 1) 56 = Fin 0"
    by (simp_all add: coeff_diff_def fp_mul_def fp_div_def fp_sub_def fp_neg_def fp_add_def e
        to_f32_def h f32_zero)
  show ?thesis
    by (simp add: adjust_def cex_sum d fp_less_Fin)
qed

lemma convert_cex:
  "convert_coeffs_to_max256 (201 / 512) (199 / 512) (7 / 32) = Some (Inr (100, 100, 56))"
  by (simp add: convert_coeffs_to_max256_def cex_init adjust_loop.simps total_def cex_adjust)

lemma simd_indices_2: "simd_indices 2 = []" and rest_indices_2: "rest_indices 2 = [0, 1]"
  by (simp_all add: simd_indices_def rest_indices_def upt_2)

lemma sum_zero_vector: "sum_mm_epi16 mm_setzero_si128 = 0"
  by (simp add: sum_mm_epi16_def mm_setzero_si128_def mm_add_epi16_def mm_srli_si128_def
      mm_extract_epi16_def bytes16_def epi16_def eval_nat_numeral)

lemma cex_v0: "brightness_contrast_V0 [255, 0, 5, 0, 255, 2] 2 1 (201 / 512) (199 / 512) (7 / 32) 0 (Some 255) = Some (Inr [100, 100])"
  by (simp add: brightness_contrast_V0_def convert_cex V0_stats_def simd_indices_2 rest_indices_2
      sum_zero_vector V0_rest_step_def V0_rest_def V0_contrast_def V0_variance_def
      mm_set1_ps_def mm_hadd_ps_def mm_cvtss_f32_def factors_var_0 lookup_V0_flat
      trunc_def clamp_i16_def)

text \<open>
  C1 as stated: for all valid inputs the outputs of V0, V1 and V2 differ pairwise
  by at most 1 at every pixel. This fails when a contrast is set: for the pixels
  (255,0,5) and (0,255,2), the weights (201/512, 199/512, 7/32), brightness 0
  and contrast 255, the integer weights are (100, 100, 56), V0 obtains the
  grayscale buffer [100, 100] with variance 0 and returns it unchanged, while V1
  obtains [101, 99] with mean 100 and variance 1 and returns [255, 0].
\<close>

theorem strategies_differ_with_contrast:
  "brightness_contrast_V0 [255, 0, 5, 0, 255, 2] 2 1 (201 / 512) (199 / 512) (7 / 32) 0 (Some 255)
     = Some (Inr [100, 100])
   \<and> brightness_contrast_V1 [255, 0, 5, 0, 255, 2] 2 1 (201 / 512) (199 / 512) (7 / 32) 0 (Some 255)
     = Some (Inr [255, 0])
   \<and> \<not> within1 [100, 100] [255, 0]"
proof -
  have "\<not> within1 [100, 100] [255, 0]"
    by (simp add: within1_def)
  with cex_v0 cex_v1 show ?thesis
    by (intro conjI)
qed

subsection \<open>The lane sums of the vectorized mean\<close>

lemma list8:
  assumes "length xs = 8"
  shows "xs = [xs ! 0, xs ! 1, xs ! 2, xs ! 3, xs ! 4, xs ! 5, xs ! 6, xs ! 7]"
proof -
  have "xs = map (nth xs) [0..<8]"
    using map_nth[of xs] assms by simp
  also have "\<dots> = [xs ! 0, xs ! 1, xs ! 2, xs ! 3, xs ! 4, xs ! 5, xs ! 6, xs ! 7]"
    by (simp add: upt_rec eval_nat_numeral)
  finally show ?thesis .
qed

lemma add_epi16_bytes16:
  "mm_add_epi16 (bytes16 ws) (bytes16 vs) = bytes16 (map2 (+) ws vs)"
  by (simp add: mm_add_epi16_def lanes16_bytes16)

lemma map2_add_lanes_aux:
  "length ws = length vs \<Longrightarrow> list_all (\<lambda>w. uint w \<le> A) ws \<Longrightarrow> list_all (\<lambda>w. uint w \<le> B) vs
   \<Longrightarrow> A + B < 65536
   \<Longrightarrow> lsum (map2 (+) ws vs) = lsum ws + lsum vs
       \<and> list_all (\<lambda>w. uint w \<le> A + B) (map2 (+) ws (vs :: 16 word list))"
proof (induction ws vs rule: list_induct2)
  case Nil
  show ?case by (simp add: lsum_def)
next
  case (Cons w ws v vs)
  have "uint w \<le> A" "uint v \<le> B" using Cons.prems by simp_all
  then have u: "uint (w + v) = uint w + uint v"
    using Cons.prems(3) by (simp add: uint_plus_if')
  have "lsum (map2 (+) ws vs) = lsum ws + lsum vs"
    "list_all (\<lambda>w. uint w \<le> A + B) (map2 (+) ws vs)"
    using Cons.IH Cons.prems by simp_all
  then show ?case
    using u \<open>uint w \<le> A\<close> \<open>uint v \<le> B\<close> by (simp add: lsum_def)
qed

lemmas map2_add_lanes = map2_add_lanes_aux[THEN conjunct1] map2_add_lanes_aux[THEN conjunct2]

lemma srli_bytes16:
  "mm_srli_si128 (bytes16 [w0, w1, w2, w3, w4, w5, w6, w7]) 8 = bytes16 [w4, w5, w6, w7, 0, 0, 0, 0]"
  "mm_srli_si128 (bytes16 [w0, w1, w2, w3, w4, w5, w6, w7]) 4 = bytes16 [w2, w3, w4, w5, w6, w7, 0, 0]"
  "mm_srli_si128 (bytes16 [w0, w1, w2, w3, w4, w5, w6, w7]) 2 = bytes16 [w1, w2, w3, w4, w5, w6, w7, 0]"
  by (simp_all add: mm_srli_si128_def bytes16_def eval_nat_numeral)

lemma sum_mm_epi16_explicit:
  "sum_mm_epi16 (bytes16 [w0, w1, w2, w3, w4, w5, w6, w7])
     = uint (w0 + w4 + (w2 + w6) + (w1 + w5 + (w3 + w7)))"
  by (simp add: sum_mm_epi16_def Let_def srli_bytes16 add_epi16_bytes16 mm_extract_epi16_def
      lanes16_bytes16)

lemma sum_mm_epi16_bytes16:
  assumes "length ws = 8" "list_all (\<lambda>w. uint w \<le> 4080) ws"
  shows "sum_mm_epi16 (bytes16 ws) = lsum ws"
proof -
  obtain w0 w1 w2 w3 w4 w5 w6 w7 where ws: "ws = [w0, w1, w2, w3, w4, w5, w6, w7]"
    using list8[OF assms(1)] by blast
  have b: "uint w0 \<le> 4080" "uint w1 \<le> 4080" "uint w2 \<le> 4080" "uint w3 \<le> 4080"
    "uint w4 \<le> 4080" "uint w5 \<le> 4080" "uint w6 \<le> 4080" "uint w7 \<le> 4080"
    using assms(2) by (simp_all add: ws)
  have "sum_mm_epi16 (bytes16 ws) = uint (w0 + w4 + (w2 + w6) + (w1 + w5 + (w3 + w7)))"
    unfolding ws by (rule sum_mm_epi16_explicit)
  also have "\<dots> = (uint w0 + uint w4 + (uint w2 + uint w6) + (uint w1 + uint w5 + (uint w3 + uint w7))) mod 65536"
    by (simp add: uint_word_ariths mod_simps)
  also have "\<dots> = lsum ws"
    using b by (simp add: lsum_def ws)
  finally show ?thesis .
qed

lemma zero_bytes16: "mm_setzero_si128 = bytes16 (replicate 8 0)"
  by (simp add: mm_setzero_si128_def bytes16_def eval_nat_numeral)

lemma list_all_mono_le:
  "list_all (\<lambda>w. uint w \<le> A) ws \<Longrightarrow> A \<le> B \<Longrightarrow> list_all (\<lambda>w. uint w \<le> (B :: int)) ws"
  by (induction ws) auto

lemma uint_ucast_16_8:
  assumes "uint (w :: 16 word) \<le> 255"
  shows "uint (ucast w :: 8 word) = uint w"
proof -
  have "uint (word_of_int (uint w) :: 8 word) = uint w"
    using assms by (intro uint_word_of_int_byte) simp_all
  then show ?thesis by (simp only: ucast_eq)
qed

lemma bsum_ucast:
  "list_all (\<lambda>w. uint w \<le> 255) ws \<Longrightarrow> bsum (map ucast ws) = lsum (ws :: 16 word list)"
  by (induction ws) (simp_all add: bsum_def lsum_def uint_ucast_16_8)

lemma pack_bytes16:
  assumes "length ws = 8" "length vs = 8"
  shows "V0_pack (bytes16 ws, bytes16 vs) = map ucast ws @ map ucast vs"
proof -
  obtain w0 w1 w2 w3 w4 w5 w6 w7 where ws: "ws = [w0, w1, w2, w3, w4, w5, w6, w7]"
    using list8[OF assms(1)] by blast
  obtain v0 v1 v2 v3 v4 v5 v6 v7 where vs: "vs = [v0, v1, v2, v3, v4, v5, v6, v7]"
    using list8[OF assms(2)] by blast
  show ?thesis unfolding ws vs pack_explicit by simp
qed

lemma accumulate_good:
  assumes "good g" "length ws = 8" "list_all (\<lambda>w. uint w \<le> A) ws" "A \<le> 3570"
  shows "\<exists>ws'. V0_accumulate (bytes16 ws) g = bytes16 ws' \<and> length ws' = 8
           \<and> list_all (\<lambda>w. uint w \<le> A + 510) ws'
           \<and> lsum ws' = lsum ws + bsum (V0_pack g)"
proof -
  obtain g1 g2 where g: "g = (bytes16 g1, bytes16 g2)" "length g1 = 8" "length g2 = 8"
    "list_all (\<lambda>w. uint w \<le> 255) g1" "list_all (\<lambda>w. uint w \<le> 255) g2"
    using assms(1) by (auto simp: good_def)
  let ?w1 = "map2 (+) ws g1"
  let ?w2 = "map2 (+) ?w1 g2"
  have l1: "length ws = length g1" using assms(2) g(2) by simp
  have s1: "lsum ?w1 = lsum ws + lsum g1" "list_all (\<lambda>w. uint w \<le> A + 255) ?w1"
    using map2_add_lanes[OF l1 assms(3) g(4)] assms(4) by simp_all
  have l2: "length ?w1 = length g2" using assms(2) g(2,3) by simp
  have s2: "lsum ?w2 = lsum ?w1 + lsum g2" "list_all (\<lambda>w. uint w \<le> A + 255 + 255) ?w2"
    using map2_add_lanes[OF l2 s1(2) g(5)] assms(4) by simp_all
  have "V0_accumulate (bytes16 ws) g = bytes16 ?w2"
    by (simp add: V0_accumulate_def g(1) add_epi16_bytes16)
  moreover have "length ?w2 = 8" using assms(2) g(2,3) by simp
  moreover have "list_all (\<lambda>w. uint w \<le> A + 510) ?w2"
    using s2(2) by (simp add: add.assoc)
  moreover have "bsum (V0_pack g) = lsum g1 + lsum g2"
  proof -
    have "bsum (V0_pack g) = bsum (map ucast g1) + bsum (map ucast g2)"
      unfolding g(1) pack_bytes16[OF g(2,3)] by (simp add: bsum_def)
    then show ?thesis
      by (simp only: bsum_ucast[OF g(4)] bsum_ucast[OF g(5)])
  qed
  ultimately show ?thesis using s1(1) s2(1) by auto
qed

lemma flush_index: "(16 * j) mod 128 = 0 \<longleftrightarrow> j mod 8 = (0 :: nat)"
  by presburger

lemma bound_step: "j mod 8 \<noteq> 0 \<Longrightarrow> (Suc j + 7) mod 8 = Suc ((j + 7) mod 8)"
  by presburger

lemma bound_le: "510 * int ((j + 7) mod 8) \<le> 3570"
proof -
  have "(j + 7) mod 8 \<le> 7" by presburger
  then show ?thesis by simp
qed

lemma lsum_zero: "lsum (replicate 8 0) = 0"
  by (simp add: lsum_def sum_list_replicate)

lemma bsum_append: "bsum (xs @ ys) = bsum xs + bsum ys"
  by (simp add: bsum_def)

lemma mean_loop_exact:
  assumes g: "\<And>k. k < n \<Longrightarrow> good (grey (16 * k))"
  shows "j0 \<le> n \<Longrightarrow> length ws = 8
    \<Longrightarrow> list_all (\<lambda>w. uint w \<le> 510 * int ((j0 + 7) mod 8)) ws
    \<Longrightarrow> \<exists>ws'. V0_mean_loop grey (map ((*) 16) [j0..<n]) (bytes16 ws) mean result
          = (bytes16 ws',
             mean + real_of_int (lsum ws
               + bsum (concat (map (\<lambda>k. V0_pack (grey (16 * k))) [j0..<n])) - lsum ws'),
             result @ concat (map (\<lambda>k. V0_pack (grey (16 * k))) [j0..<n]))
        \<and> length ws' = 8 \<and> list_all (\<lambda>w. uint w \<le> 3570) ws'"
proof (induction "n - j0" arbitrary: j0 ws mean result)
  case 0
  then have "j0 = n" by simp
  moreover have "list_all (\<lambda>w. uint w \<le> 3570) ws"
    by (rule list_all_mono_le[OF "0.prems"(3) bound_le])
  ultimately show ?case using "0.prems"(2)
    by (intro exI[of _ ws]) (simp add: bsum_def)
next
  case (Suc d)
  then have lt: "j0 < n" by simp
  have up: "[j0..<n] = j0 # [Suc j0..<n]" using lt by (simp add: upt_conv_Cons)
  let ?A = "510 * int ((j0 + 7) mod 8)"
  let ?p = "V0_pack (grey (16 * j0))"
  let ?rest = "concat (map (\<lambda>k. V0_pack (grey (16 * k))) [Suc j0..<n])"
  obtain ws1 where ws1: "V0_accumulate (bytes16 ws) (grey (16 * j0)) = bytes16 ws1"
    "length ws1 = 8" "list_all (\<lambda>w. uint w \<le> ?A + 510) ws1"
    "lsum ws1 = lsum ws + bsum ?p"
    using accumulate_good[OF g[OF lt] Suc.prems(2,3) bound_le] by blast
  have d: "d = n - Suc j0" "Suc j0 \<le> n" using Suc.hyps(2) lt by simp_all
  have c: "concat (map (\<lambda>k. V0_pack (grey (16 * k))) [j0..<n]) = ?p @ ?rest"
    unfolding up by simp
  show ?case
  proof (cases "j0 mod 8 = 0")
    case True
    have b4080: "list_all (\<lambda>w. uint w \<le> 4080) ws1"
      using list_all_mono_le[OF ws1(3)] bound_le[of j0] by simp
    have fl: "sum_mm_epi16 (bytes16 ws1) = lsum ws1"
      by (rule sum_mm_epi16_bytes16[OF ws1(2) b4080])
    have z: "list_all (\<lambda>w. uint w \<le> 510 * int ((Suc j0 + 7) mod 8)) (replicate 8 (0 :: 16 word))"
      by (simp add: list_all_iff)
    obtain ws' where IH: "V0_mean_loop grey (map ((*) 16) [Suc j0..<n]) (bytes16 (replicate 8 0))
          (mean + real_of_int (lsum ws1)) (result @ ?p)
        = (bytes16 ws',
           mean + real_of_int (lsum ws1) + real_of_int (lsum (replicate 8 0) + bsum ?rest - lsum ws'),
           (result @ ?p) @ ?rest)"
      "length ws' = 8" "list_all (\<lambda>w. uint w \<le> 3570) ws'"
      using Suc.hyps(1)[OF d(1) d(2) _ z, of "mean + real_of_int (lsum ws1)" "result @ ?p"]
      by auto
    have "V0_mean_loop grey (map ((*) 16) [j0..<n]) (bytes16 ws) mean result
        = V0_mean_loop grey (map ((*) 16) [Suc j0..<n]) (bytes16 (replicate 8 0))
            (mean + real_of_int (lsum ws1)) (result @ ?p)"
      unfolding up using True
      by (simp add: Let_def ws1(1) fl flush_index zero_bytes16)
    then have "V0_mean_loop grey (map ((*) 16) [j0..<n]) (bytes16 ws) mean result
        = (bytes16 ws',
           mean + real_of_int (lsum ws
             + bsum (concat (map (\<lambda>k. V0_pack (grey (16 * k))) [j0..<n])) - lsum ws'),
           result @ concat (map (\<lambda>k. V0_pack (grey (16 * k))) [j0..<n]))"
      unfolding IH(1) c using ws1(4) by (simp add: lsum_zero bsum_append)
    then show ?thesis using IH(2,3) by blast
  next
    case False
    have "510 * int ((j0 + 7) mod 8) + 510 = 510 * int ((Suc j0 + 7) mod 8)"
      unfolding bound_step[OF False] by simp
    then have b: "list_all (\<lambda>w. uint w \<le> 510 * int ((Suc j0 + 7) mod 8)) ws1"
      using ws1(3) by (simp only:)
    obtain ws' where IH: "V0_mean_loop grey (map ((*) 16) [Suc j0..<n]) (bytes16 ws1)
          mean (result @ ?p)
        = (bytes16 ws',
           mean + real_of_int (lsum ws1 + bsum ?rest - lsum ws'),
           (result @ ?p) @ ?rest)"
      "length ws' = 8" "list_all (\<lambda>w. uint w \<le> 3570) ws'"
      using Suc.hyps(1)[OF d(1) d(2) ws1(2) b, of mean "result @ ?p"]
      by auto
    have "V0_mean_loop grey (map ((*) 16) [j0..<n]) (bytes16 ws) mean result
        = V0_mean_loop grey (map ((*) 16) [Suc j0..<n]) (bytes16 ws1) mean (result @ ?p)"
      unfolding up using False
      by (simp add: Let_def ws1(1) flush_index)
    then have "V0_mean_loop grey (map ((*) 16) [j0..<n]) (bytes16 ws) mean result
        = (bytes16 ws',
           mean + real_of_int (lsum ws
             + bsum (concat (map (\<lambda>k. V0_pack (grey (16 * k))) [j0..<n])) - lsum ws'),
           result @ concat (map (\<lambda>k. V0_pack (grey (16 * k))) [j0..<n]))"
      unfolding IH(1) c using ws1(4) by (simp add: bsum_append)
    then show ?thesis using IH(2,3) by blast
  qed
qed

lemma uint_eq_sint16:
  assumes "0 \<le> sint (x :: 16 word)"
  shows "uint x = sint x"
proof -
  have "(scast x :: 16 word) = word_of_int (sint x)"
    by (rule scast_eq)
  then have "x = word_of_int (sint x)"
    by (simp only: scast_id)
  then have "uint x = uint (word_of_int (sint x) :: 16 word)"
    by simp
  also have "\<dots> = sint x mod 2 ^ LENGTH(16)"
    by (simp only: uint_word_of_int)
  also have "\<dots> = sint x mod 65536"
    by simp
  also have "\<dots> = sint x"
    using assms sint_lt[of x] by simp
  finally show ?thesis .
qed

lemma sint_eq_uint16:
  assumes "uint (x :: 16 word) \<le> 4080"
  shows "sint x = uint x"
proof -
  have "sint x = signed_take_bit 15 (uint x)"
    by (simp add: sint_uint)
  also have "\<dots> = uint x"
  proof (rule signed_take_bit_int_eq_self)
    have "- (2 ^ 15) \<le> (0 :: int)" by simp
    then show "- (2 ^ 15) \<le> uint x" using uint_ge_0[of x] by (rule order_trans)
    show "uint x < 2 ^ 15" using assms by simp
  qed
  finally show ?thesis .
qed

lemma uint_grey_lane_le: "uint (grey_lane cs r g b) \<le> 255"
proof -
  obtain c0 c1 c2 where cs: "cs = (c0, c1, c2)" by (cases cs)
  have "uint (ucast r * c0 + ucast g * c1 + ucast b * c2 :: 16 word) < 65536"
    using uint_bounded[of "ucast r * c0 + ucast g * c1 + ucast b * c2 :: 16 word"] by simp
  then show ?thesis
    by (simp add: grey_lane_def cs uint_drop_bit8)
qed

lemma uint_clamp_lane_le: "uint (clamp_lane x) \<le> 255"
proof -
  consider "255 < sint x" | "sint x < 0" | "0 \<le> sint x" "sint x \<le> 255" by linarith
  then show ?thesis
  proof cases
    case 1
    then show ?thesis by (simp add: clamp_lane_def)
  next
    case 2
    then show ?thesis by (simp add: clamp_lane_def)
  next
    case 3
    then have "uint x \<le> 255" using uint_eq_sint16[OF 3(1)] by simp
    then show ?thesis using 3 by (simp add: clamp_lane_def)
  qed
qed

lemma good_grey16:
  assumes "3 * i + 48 \<le> length img"
  shows "good (V0_grey16 img cs i)"
  unfolding grey16_explicit[OF block_facts(1-3)[OF assms]] good_def
  by (intro exI conjI, rule refl) (simp_all add: uint_grey_lane_le)

lemma good_grey16_bright:
  assumes "3 * i + 48 \<le> length img"
  shows "good (V0_grey16_bright img cs brightness i)"
  unfolding V0_grey16_bright_def Let_def grey16_explicit[OF block_facts(1-3)[OF assms]]
    prod.case clamp16_explicit good_def
  by (intro exI conjI, rule refl) (simp_all add: uint_clamp_lane_le)

lemma simd_index_in_range:
  assumes "length img = 3 * wh" "k < (wh - wh mod 16) div 16"
  shows "3 * (16 * k) + 48 \<le> length img"
proof -
  have "16 * ((wh - wh mod 16) div 16) = wh - wh mod 16"
    by (simp add: minus_mod_eq_mult_div)
  moreover have "16 * k + 16 \<le> 16 * ((wh - wh mod 16) div 16)"
    using assms(2) by simp
  ultimately show ?thesis using assms(1) by simp
qed

lemma sum_list_of_int:
  "sum_list (map (\<lambda>i. real_of_int (f i)) xs) = real_of_int (sum_list (map f xs))"
  by (induction xs) simp_all

lemma V0_stats_exact:
  assumes g: "\<And>k. k < (wh - wh mod 16) div 16 \<Longrightarrow> good (grey (16 * k))"
    and r: "\<And>i. snd (rest i) = real_of_int (uint (fst (rest i)))"
  shows "V0_stats grey rest wh
     = (concat (map (\<lambda>i. V0_pack (grey i)) (simd_indices wh)) @ map (\<lambda>i. fst (rest i)) (rest_indices wh),
        real_of_int (bsum (concat (map (\<lambda>i. V0_pack (grey i)) (simd_indices wh))
                           @ map (\<lambda>i. fst (rest i)) (rest_indices wh))))"
proof -
  let ?m = "(wh - wh mod 16) div 16"
  let ?S = "concat (map (\<lambda>k. V0_pack (grey (16 * k))) [0..<?m])"
  have z: "list_all (\<lambda>w. uint w \<le> 510 * int ((0 + 7) mod 8)) (replicate 8 (0 :: 16 word))"
    by (simp add: list_all_iff)
  obtain ws' where L: "V0_mean_loop grey (map ((*) 16) [0..<?m]) (bytes16 (replicate 8 0)) 0 []
        = (bytes16 ws', 0 + real_of_int (lsum (replicate 8 0) + bsum ?S - lsum ws'), [] @ ?S)"
    "length ws' = 8" "list_all (\<lambda>w. uint w \<le> 3570) ws'"
    using mean_loop_exact[of ?m grey 0 "replicate 8 0" 0 "[]", OF g _ _ z] by auto
  have fl: "sum_mm_epi16 (bytes16 ws') = lsum ws'"
    by (rule sum_mm_epi16_bytes16[OF L(2) list_all_mono_le[OF L(3)]]) simp
  have S: "concat (map (\<lambda>i. V0_pack (grey i)) (simd_indices wh)) = ?S"
    by (simp add: simd_indices_def comp_def)
  have si: "simd_indices wh = map ((*) 16) [0..<?m]"
    by (simp add: simd_indices_def)
  have rs: "sum_list (map (\<lambda>i. snd (rest i)) (rest_indices wh))
      = real_of_int (bsum (map (\<lambda>i. fst (rest i)) (rest_indices wh)))"
    unfolding bsum_def map_map comp_def by (simp only: r sum_list_of_int)
  show ?thesis
    unfolding V0_stats_def si zero_bytes16 L(1) S[unfolded si]
    by (simp add: fl lsum_zero rs bsum_append comp_def)
qed

lemma lanes_in_range_bytes16:
  assumes "list_all (\<lambda>w. uint w \<le> 4080) ws"
  shows "lanes_in_range (bytes16 ws)"
  using assms by (induction ws) (simp_all add: lanes_in_range_def lanes16_bytes16 sint_eq_uint16)

lemma mean_vectors_bounded:
  assumes g: "\<And>k. k < n \<Longrightarrow> good (grey (16 * k))"
  shows "j0 \<le> n \<Longrightarrow> length ws = 8
    \<Longrightarrow> list_all (\<lambda>w. uint w \<le> 510 * int ((j0 + 7) mod 8)) ws
    \<Longrightarrow> list_all lanes_in_range (V0_mean_vectors grey (map ((*) 16) [j0..<n]) (bytes16 ws))"
proof (induction "n - j0" arbitrary: j0 ws)
  case 0
  then show ?case by simp
next
  case (Suc d)
  then have lt: "j0 < n" by simp
  have up: "[j0..<n] = j0 # [Suc j0..<n]" using lt by (simp add: upt_conv_Cons)
  let ?A = "510 * int ((j0 + 7) mod 8)"
  obtain ws1 where ws1: "V0_accumulate (bytes16 ws) (grey (16 * j0)) = bytes16 ws1"
    "length ws1 = 8" "list_all (\<lambda>w. uint w \<le> ?A + 510) ws1"
    using accumulate_good[OF g[OF lt] Suc.prems(2,3) bound_le] by blast
  have d: "d = n - Suc j0" "Suc j0 \<le> n" using Suc.hyps(2) lt by simp_all
  have b4080: "list_all (\<lambda>w. uint w \<le> 4080) ws1"
    using list_all_mono_le[OF ws1(3)] bound_le[of j0] by simp
  have here: "lanes_in_range (bytes16 ws1)"
    by (rule lanes_in_range_bytes16[OF b4080])
  show ?case
  proof (cases "j0 mod 8 = 0")
    case True
    have z: "list_all (\<lambda>w. uint w \<le> 510 * int ((Suc j0 + 7) mod 8)) (replicate 8 (0 :: 16 word))"
      by (simp add: list_all_iff)
    have "list_all lanes_in_range
        (V0_mean_vectors grey (map ((*) 16) [Suc j0..<n]) (bytes16 (replicate 8 0)))"
      by (rule Suc.hyps(1)[OF d(1) d(2) _ z]) simp
    then show ?thesis
      unfolding up using True here
      by (simp add: Let_def ws1(1) flush_index zero_bytes16)
  next
    case False
    have "510 * int ((j0 + 7) mod 8) + 510 = 510 * int ((Suc j0 + 7) mod 8)"
      unfolding bound_step[OF False] by simp
    then have b: "list_all (\<lambda>w. uint w \<le> 510 * int ((Suc j0 + 7) mod 8)) ws1"
      using ws1(3) by (simp only:)
    have "list_all lanes_in_range (V0_mean_vectors grey (map ((*) 16) [Suc j0..<n]) (bytes16 ws1))"
      by (rule Suc.hyps(1)[OF d(1) d(2) ws1(2) b])
    then show ?thesis
      unfolding up using False here
      by (simp add: Let_def ws1(1) flush_index)
  qed
qed

lemma mean_vectors_simd:
  assumes g: "\<And>k. k < (wh - wh mod 16) div 16 \<Longrightarrow> good (grey (16 * k))"
  shows "list_all lanes_in_range (V0_mean_vectors grey (simd_indices wh) mm_setzero_si128)"
proof -
  have z: "list_all (\<lambda>w. uint w \<le> 510 * int ((0 + 7) mod 8)) (replicate 8 (0 :: 16 word))"
    by (simp add: list_all_iff)
  have si: "simd_indices wh = map ((*) 16) [0..<(wh - wh mod 16) div 16]"
    by (simp add: simd_indices_def)
  show ?thesis
    unfolding si zero_bytes16
    by (rule mean_vectors_bounded[where n = "(wh - wh mod 16) div 16" and grey = grey
          and ?j0.0 = 0 and ws = "replicate 8 0", OF g _ _ z]) simp_all
qed

lemma rest_step_exact:
  assumes "total cs = 256"
  shows "snd (V0_rest_step (V0_rest img cs i)) = real_of_int (uint (fst (V0_rest_step (V0_rest img cs i))))"
proof -
  let ?G = "grey_int cs (img ! (i * 3), img ! (i * 3 + 1), img ! (i * 3 + 2))"
  have r: "0 \<le> ?G" "?G \<le> 255" by (rule grey_int_range[OF assms])+
  have "sint (word_of_int ?G :: 16 word) = ?G"
    using r by (intro sint_word_of_int16) simp_all
  moreover have "uint (word_of_int ?G :: 8 word) = ?G"
    by (rule uint_word_of_int_byte[OF r])
  ultimately show ?thesis
    unfolding V0_rest_triple V0_rest_step_def by (simp add: ucast_16_8_wi del: of_int_uint)
qed

lemma rest_bright_step_exact:
  "snd (V0_rest_bright_step res) = real_of_int (uint (fst (V0_rest_bright_step res)))"
proof -
  consider "255 < sint res" | "sint res < 0" | "0 \<le> sint res" "sint res \<le> 255" by linarith
  then show ?thesis
  proof cases
    case 1
    then show ?thesis by (simp add: V0_rest_bright_step_def)
  next
    case 2
    then show ?thesis by (simp add: V0_rest_bright_step_def)
  next
    case 3
    have u: "uint res = sint res" by (rule uint_eq_sint16[OF 3(1)])
    then have "uint (ucast res :: 8 word) = sint res"
      using uint_ucast_16_8[of res] 3(2) by simp
    then show ?thesis using 3 by (simp add: V0_rest_bright_step_def del: of_int_uint)
  qed
qed

text \<open>
  C9: in the contrast paths of \<^verbatim>\<open>brightness_contrast_V0\<close> the 16-bit lane sums
  never leave the range of \<^verbatim>\<open>int16_t\<close>: between two flushes (which happen when
  \<^verbatim>\<open>i % 128 == 0\<close>) every lane stays between 0 and 8 * 2 * 255 = 4080, so the
  value accumulated in \<^verbatim>\<open>mean\<close> is the exact integer sum of the stored
  grayscale bytes. The integer weights add up to 256, as they do whenever
  \<^verbatim>\<open>convert_coeffs_to_max256\<close> returns (lemma \<open>convert_total\<close>).
\<close>

theorem mean_accumulation_exact:
  assumes "total cs = 256" "length img = 3 * wh"
  shows "snd (V0_stats (V0_grey16 img cs) (\<lambda>i. V0_rest_step (V0_rest img cs i)) wh)
       = real_of_int (bsum (fst (V0_stats (V0_grey16 img cs) (\<lambda>i. V0_rest_step (V0_rest img cs i)) wh)))
   \<and> snd (V0_stats (V0_grey16_bright img cs brightness)
            (\<lambda>i. V0_rest_bright_step (V0_rest img cs i + brightness)) wh)
       = real_of_int (bsum (fst (V0_stats (V0_grey16_bright img cs brightness)
            (\<lambda>i. V0_rest_bright_step (V0_rest img cs i + brightness)) wh)))
   \<and> list_all lanes_in_range (V0_mean_vectors (V0_grey16 img cs) (simd_indices wh) mm_setzero_si128)
   \<and> list_all lanes_in_range
        (V0_mean_vectors (V0_grey16_bright img cs brightness) (simd_indices wh) mm_setzero_si128)"
proof -
  have g1: "\<And>k. k < (wh - wh mod 16) div 16 \<Longrightarrow> good (V0_grey16 img cs (16 * k))"
    by (rule good_grey16[OF simd_index_in_range[OF assms(2)]])
  have g2: "\<And>k. k < (wh - wh mod 16) div 16 \<Longrightarrow> good (V0_grey16_bright img cs brightness (16 * k))"
    by (rule good_grey16_bright[OF simd_index_in_range[OF assms(2)]])
  let ?r1 = "\<lambda>i. V0_rest_step (V0_rest img cs i)"
  let ?r2 = "\<lambda>i. V0_rest_bright_step (V0_rest img cs i + brightness)"
  have r1: "\<And>i. snd (?r1 i) = real_of_int (uint (fst (?r1 i)))"
    by (rule rest_step_exact[OF assms(1)])
  have r2: "\<And>i. snd (?r2 i) = real_of_int (uint (fst (?r2 i)))"
    by (rule rest_bright_step_exact)
  let ?R1 = "concat (map (\<lambda>i. V0_pack (V0_grey16 img cs i)) (simd_indices wh))
      @ map (\<lambda>i. fst (?r1 i)) (rest_indices wh)"
  let ?R2 = "concat (map (\<lambda>i. V0_pack (V0_grey16_bright img cs brightness i)) (simd_indices wh))
      @ map (\<lambda>i. fst (?r2 i)) (rest_indices wh)"
  have e1: "V0_stats (V0_grey16 img cs) ?r1 wh = (?R1, real_of_int (bsum ?R1))"
    by (rule V0_stats_exact[where grey = "V0_grey16 img cs" and rest = ?r1 and wh = wh, OF g1 r1])
  have e2: "V0_stats (V0_grey16_bright img cs brightness) ?r2 wh = (?R2, real_of_int (bsum ?R2))"
    by (rule V0_stats_exact[where grey = "V0_grey16_bright img cs brightness" and rest = ?r2
          and wh = wh, OF g2 r2])
  have s1: "snd (V0_stats (V0_grey16 img cs) ?r1 wh)
      = real_of_int (bsum (fst (V0_stats (V0_grey16 img cs) ?r1 wh)))"
    by (simp only: e1 fst_conv snd_conv)
  have s2: "snd (V0_stats (V0_grey16_bright img cs brightness) ?r2 wh)
      = real_of_int (bsum (fst (V0_stats (V0_grey16_bright img cs brightness) ?r2 wh)))"
    by (simp only: e2 fst_conv snd_conv)
  show ?thesis
    using s1 s2 mean_vectors_simd[where grey = "V0_grey16 img cs" and wh = wh, OF g1]
      mean_vectors_simd[where grey = "V0_grey16_bright img cs brightness" and wh = wh, OF g2]
    by (intro conjI)
qed

theorem mean_accumulation_exact_witness:
  "total (85, 85, 86) = 256 \<and> length (replicate 51 (7 :: uint8_t)) = 3 * 17
   \<and> snd (V0_stats (V0_grey16 (replicate 51 7) (85, 85, 86))
            (\<lambda>i. V0_rest_step (V0_rest (replicate 51 7) (85, 85, 86) i)) 17)
       = real_of_int (bsum (fst (V0_stats (V0_grey16 (replicate 51 7) (85, 85, 86))
            (\<lambda>i. V0_rest_step (V0_rest (replicate 51 7) (85, 85, 86) i)) 17)))
   \<and> snd (V0_stats (V0_grey16_bright (replicate 51 7) (85, 85, 86) 5)
            (\<lambda>i. V0_rest_bright_step (V0_rest (replicate 51 7) (85, 85, 86) i + 5)) 17)
       = real_of_int (bsum (fst (V0_stats (V0_grey16_bright (replicate 51 7) (85, 85, 86) 5)
            (\<lambda>i. V0_rest_bright_step (V0_rest (replicate 51 7) (85, 85, 86) i + 5)) 17)))
   \<and> list_all lanes_in_range
        (V0_mean_vectors (V0_grey16 (replicate 51 7) (85, 85, 86)) (simd_indices 17)
           mm_setzero_si128)
   \<and> list_all lanes_in_range
        (V0_mean_vectors (V0_grey16_bright (replicate 51 7) (85, 85, 86) 5) (simd_indices 17)
           mm_setzero_si128)"
proof -
  have t: "total (85, 85, 86) = 256"
    by (simp add: total_def)
  have l: "length (replicate 51 (7 :: uint8_t)) = 3 * 17"
    by simp
  show ?thesis
    using t l mean_accumulation_exact[OF t l, of 5] by (intro conjI) simp_all
qed

subsection \<open>The contrast stage on a buffer of variance zero\<close>

lemma bright_step_clamp:
  "V1_bright_step res = map_option (\<lambda>p. (p, real (unat p))) (fclamp_u8 res)"
  by (cases res) (simp_all add: V1_bright_step_def fclamp_u8_def clamp_u8_def)

lemma those_map_option:
  "those (map (\<lambda>x. map_option g (f x)) xs) = map_option (map g) (those (map f xs))"
proof (induction xs)
  case Nil
  then show ?case by simp
next
  case (Cons a xs)
  show ?case
    by (cases "f a"; cases "those (map f xs)") (simp_all add: Cons)
qed

lemma bright_steps:
  "those (map (\<lambda>i. V1_bright_step (f i)) idx)
     = map_option (map (\<lambda>p. (p, real (unat p)))) (those (map (\<lambda>i. fclamp_u8 (f i)) idx))"
  unfolding bright_step_clamp by (rule those_map_option)

lemma zero_variance_bytes:
  assumes "variance_sum stage m = 0" "p \<in> set stage"
  shows "real (unat p) = m"
proof -
  have "\<forall>x \<in> set (map (\<lambda>p. (real (unat p) - m) * (real (unat p) - m)) stage). x = 0"
    using assms(1) unfolding variance_sum_def
    by (subst (asm) sum_list_nonneg_eq_0_iff) auto
  then have "(real (unat p) - m) * (real (unat p) - m) = 0"
    using assms(2) by auto
  then show ?thesis by simp
qed

lemma clamp_u8_byte: "clamp_u8 (real (unat (p :: uint8_t))) = p"
proof -
  have "clamp_u8 (real_of_int (uint p)) = word_of_int (clamp_int (uint p))"
    by (rule clamp_u8_of_int)
  also have "clamp_int (uint p) = uint p"
    by (rule clamp_int_id) (simp_all add: uint_byte_le)
  finally show ?thesis by simp
qed

lemma unat_byte_less: "unat (p :: uint8_t) < 256"
  using unsigned_less[of p, where 'a = nat] by simp

lemma V1_contrast_zero:
  assumes "0 < wh" "variance_sum stage (mean / real wh) / real wh = 0"
  shows "V1_contrast stage mean wh contrast = Some (Inr stage)"
proof -
  have v: "variance_sum stage (mean / real wh) = 0"
    using assms by simp
  have "map (\<lambda>p. lookup_V1 0 ((1 - 0) * (mean / real wh)) ! unat p) stage = map (\<lambda>p. p) stage"
  proof (rule map_cong[OF refl])
    fix p assume "p \<in> set stage"
    then have "real (unat p) = mean / real wh"
      by (rule zero_variance_bytes[OF v])
    then have "clamp_u8 (mean / real wh) = p"
      using clamp_u8_byte[of p] by simp
    then show "lookup_V1 0 ((1 - 0) * (mean / real wh)) ! unat p = p"
      by (simp add: lookup_V1_nth[OF unat_byte_less])
  qed
  then show ?thesis
    using assms by (simp add: V1_contrast_def Let_def contrast_factors_def)
qed

lemma V2_contrast_zero:
  assumes "0 < wh"
    "variance_sum stage (sum_list (map (\<lambda>p. real (unat p)) stage) / real wh) / real wh = 0"
  shows "V2_contrast stage wh contrast = Some (Inr stage)"
proof -
  let ?mean = "sum_list (map (\<lambda>p. real (unat p)) stage) / real wh"
  have v: "variance_sum stage ?mean = 0"
    using assms by simp
  have "map (\<lambda>p. clamp_u8 (0 * real (unat p) + (1 - 0) * ?mean)) stage = map (\<lambda>p. p) stage"
  proof (rule map_cong[OF refl])
    fix p assume "p \<in> set stage"
    then have "real (unat p) = ?mean"
      by (rule zero_variance_bytes[OF v])
    then have "clamp_u8 ?mean = p"
      using clamp_u8_byte[of p] by simp
    then show "clamp_u8 (0 * real (unat p) + (1 - 0) * ?mean) = p"
      by simp
  qed
  then show ?thesis
    using assms by (simp add: V2_contrast_def Let_def contrast_factors_def)
qed

lemma V1_zero:
  assumes "0 < width * height"
    and "variance_sum stage (sum_list (map (\<lambda>p. real (unat p)) stage) / real (width * height))
           / real (width * height) = 0"
    and "brightness_contrast_V1 img width height a b c brightness None = Some (Inr stage)"
  shows "brightness_contrast_V1 img width height a b c brightness (Some contrast) = Some (Inr stage)"
proof (cases "brightness = 0")
  case True
  let ?s = "weight_sum a b c"
  have "V1_grey (fp_div f32 (Fin a) ?s) (fp_div f32 (Fin b) ?s) (fp_div f32 (Fin c) ?s) img
      (width * height) = Some stage"
    using assms(3) True by (simp add: brightness_contrast_V1_def Let_def split: option.splits)
  then show ?thesis
    using True V1_contrast_zero[OF assms(1,2)] by (simp add: brightness_contrast_V1_def Let_def)
next
  case False
  let ?s = "weight_sum a b c"
  let ?f = "\<lambda>i. V1_add_brightness (weighted (fp_div f32 (Fin a) ?s) (fp_div f32 (Fin b) ?s)
      (fp_div f32 (Fin c) ?s) img i) brightness"
  have s: "those (map (\<lambda>i. fclamp_u8 (?f i)) [0..<width * height]) = Some stage"
    using assms(3) False
    by (simp add: brightness_contrast_V1_def Let_def V1_bright_def split: option.splits)
  have st: "those (map (\<lambda>i. V1_bright_step (?f i)) [0..<width * height])
      = Some (map (\<lambda>p. (p, real (unat p))) stage)"
    unfolding bright_steps s by simp
  have f: "map fst (map (\<lambda>p. (p, real (unat p))) stage) = stage"
    by (simp add: comp_def)
  have m: "sum_list (map snd (map (\<lambda>p. (p, real (unat p))) stage))
      = sum_list (map (\<lambda>p. real (unat p)) stage)"
    by (simp add: comp_def)
  have "brightness_contrast_V1 img width height a b c brightness (Some contrast)
      = V1_contrast (map fst (map (\<lambda>p. (p, real (unat p))) stage))
          (sum_list (map snd (map (\<lambda>p. (p, real (unat p))) stage))) (width * height) contrast"
    using False by (simp add: brightness_contrast_V1_def Let_def st del: map_map)
  also have "\<dots> = V1_contrast stage (sum_list (map (\<lambda>p. real (unat p)) stage))
      (width * height) contrast"
    by (simp only: f m)
  also have "\<dots> = Some (Inr stage)"
    by (rule V1_contrast_zero[OF assms(1,2)])
  finally show ?thesis .
qed

lemma V2_zero:
  assumes "0 < width * height"
    and "variance_sum stage (sum_list (map (\<lambda>p. real (unat p)) stage) / real (width * height))
           / real (width * height) = 0"
    and "brightness_contrast_V2 img width height a b c brightness None = Some (Inr stage)"
  shows "brightness_contrast_V2 img width height a b c brightness (Some contrast) = Some (Inr stage)"
  using assms(3) V2_contrast_zero[OF assms(1,2)]
  by (auto simp add: brightness_contrast_V2_def Let_def split: option.splits if_splits)

lemma list16:
  assumes "length xs = 16"
  shows "xs = [xs ! 0, xs ! 1, xs ! 2, xs ! 3, xs ! 4, xs ! 5, xs ! 6, xs ! 7,
               xs ! 8, xs ! 9, xs ! 10, xs ! 11, xs ! 12, xs ! 13, xs ! 14, xs ! 15]"
proof -
  have "xs = map (nth xs) [0..<16]"
    using map_nth[of xs] assms by simp
  also have "\<dots> = [xs ! 0, xs ! 1, xs ! 2, xs ! 3, xs ! 4, xs ! 5, xs ! 6, xs ! 7,
               xs ! 8, xs ! 9, xs ! 10, xs ! 11, xs ! 12, xs ! 13, xs ! 14, xs ! 15]"
    by (simp add: upt_rec eval_nat_numeral)
  finally show ?thesis .
qed

lemma list4:
  assumes "length xs = 4"
  shows "xs = [xs ! 0, xs ! 1, xs ! 2, xs ! 3]"
proof -
  have "xs = map (nth xs) [0..<4]"
    using map_nth[of xs] assms by simp
  also have "\<dots> = [xs ! 0, xs ! 1, xs ! 2, xs ! 3]"
    by (simp add: upt_rec eval_nat_numeral)
  finally show ?thesis .
qed

lemma sint_ucast_8_32: "sint (ucast (p :: 8 word) :: 32 word) = uint p"
proof -
  have u: "uint (ucast p :: 32 word) = uint p"
    by (simp add: uint_up_ucast is_up)
  have "sint (ucast p :: 32 word) = signed_take_bit 31 (uint (ucast p :: 32 word))"
    by (simp add: sint_uint)
  also have "\<dots> = signed_take_bit 31 (uint p)"
    by (simp only: u)
  also have "\<dots> = uint p"
  proof (rule signed_take_bit_int_eq_self)
    have "- (2 ^ 31) \<le> (0 :: int)" by simp
    then show "- (2 ^ 31) \<le> uint p" using uint_ge_0[of p] by (rule order_trans)
    show "uint p < 2 ^ 31" using uint_byte_le[of p] by simp
  qed
  finally show ?thesis .
qed

lemma cvt_lane: "(signed (ucast (p :: 8 word) :: 32 word) :: real) = unsigned p"
proof -
  have "(signed (ucast p :: 32 word) :: real) = real_of_int (sint (ucast p :: 32 word))"
    by simp
  also have "\<dots> = real_of_int (uint p)"
    by (simp only: sint_ucast_8_32)
  finally show ?thesis by simp
qed

lemma var_inner_explicit:
  "V0_var_inner 4 [p0, p1, p2, p3, p4, p5, p6, p7, p8, p9, p10, p11, p12, p13, p14, p15]
      [n, n, n, n] [v0, v1, v2, v3]
   = [v0 + (real (unat p0) + n) * (real (unat p0) + n) + (real (unat p4) + n) * (real (unat p4) + n)
         + (real (unat p8) + n) * (real (unat p8) + n) + (real (unat p12) + n) * (real (unat p12) + n),
      v1 + (real (unat p1) + n) * (real (unat p1) + n) + (real (unat p5) + n) * (real (unat p5) + n)
         + (real (unat p9) + n) * (real (unat p9) + n) + (real (unat p13) + n) * (real (unat p13) + n),
      v2 + (real (unat p2) + n) * (real (unat p2) + n) + (real (unat p6) + n) * (real (unat p6) + n)
         + (real (unat p10) + n) * (real (unat p10) + n) + (real (unat p14) + n) * (real (unat p14) + n),
      v3 + (real (unat p3) + n) * (real (unat p3) + n) + (real (unat p7) + n) * (real (unat p7) + n)
         + (real (unat p11) + n) * (real (unat p11) + n) + (real (unat p15) + n) * (real (unat p15) + n)]"
  by (simp add: eval_nat_numeral mm_cvtepu8_epi32_def mm_cvtepi32_ps_def mm_add_ps_def
      mm_mul_ps_def mm_srli_si128_def cvt_lane Let_def)

lemma var_inner_sum:
  assumes "length pixels = 16" "length v = 4"
  shows "length (V0_var_inner 4 pixels (replicate 4 n) v) = 4
       \<and> sum_list (V0_var_inner 4 pixels (replicate 4 n) v)
           = sum_list v + sum_list (map (\<lambda>p. (real (unat p) + n) * (real (unat p) + n)) pixels)"
proof -
  obtain p0 p1 p2 p3 p4 p5 p6 p7 p8 p9 p10 p11 p12 p13 p14 p15 where
    p: "pixels = [p0, p1, p2, p3, p4, p5, p6, p7, p8, p9, p10, p11, p12, p13, p14, p15]"
    using list16[OF assms(1)] by blast
  obtain v0 v1 v2 v3 where v: "v = [v0, v1, v2, v3]"
    using list4[OF assms(2)] by blast
  have r: "replicate 4 n = [n, n, n, n]"
    by (simp add: eval_nat_numeral)
  show ?thesis
    unfolding p v r var_inner_explicit by simp
qed

lemma var_loop_sum:
  assumes "\<forall>i \<in> set idx. i + 16 \<le> length result" "length v = 4"
  shows "length (V0_var_loop result idx (replicate 4 n) v) = 4
       \<and> sum_list (V0_var_loop result idx (replicate 4 n) v)
           = sum_list v + sum_list (map (\<lambda>p. (real (unat p) + n) * (real (unat p) + n))
               (concat (map (\<lambda>i. take 16 (drop i result)) idx)))"
  using assms
proof (induction idx arbitrary: v)
  case Nil
  then show ?case by simp
next
  case (Cons i idx)
  have "i + 16 \<le> length result"
    using Cons.prems(1) by simp
  then have "min (length result - i) 16 = 16"
    by arith
  then have l: "length (mm_loadu_si128 result i) = 16"
    by (simp add: mm_loadu_si128_def)
  note s = var_inner_sum[OF l Cons.prems(2), of n]
  have t: "\<forall>i \<in> set idx. i + 16 \<le> length result"
    using Cons.prems(1) by simp
  show ?case
    using Cons.IH[OF t conjunct1[OF s]] conjunct2[OF s]
    by (simp add: mm_loadu_si128_def)
qed

lemma hadd_sum:
  assumes "length v = 4"
  shows "mm_cvtss_f32 (mm_hadd_ps (mm_hadd_ps v v) (mm_hadd_ps v v)) = sum_list v"
proof -
  obtain v0 v1 v2 v3 where v: "v = [v0, v1, v2, v3]"
    using list4[OF assms] by blast
  show ?thesis
    unfolding v by (simp add: mm_cvtss_f32_def mm_hadd_ps_def)
qed

lemma V0_variance_eq:
  assumes "length result = wh"
  shows "V0_variance result wh mean = variance_sum result mean / real wh"
proof -
  let ?m = "(wh - wh mod 16) div 16"
  let ?f = "\<lambda>p. (real (unat p) + - 1 * mean) * (real (unat p) + - 1 * mean)"
  let ?g = "\<lambda>p. (real (unat p) - mean) * (real (unat p) - mean)"
  have fg: "?f = ?g" by (rule ext) simp
  have n16: "16 * ?m = wh - wh mod 16"
    by (simp add: minus_mod_eq_mult_div)
  have si: "simd_indices wh = map (\<lambda>k. 16 * k) [0..<?m]"
    by (simp add: simd_indices_def)
  have r: "\<forall>i \<in> set (simd_indices wh). i + 16 \<le> length result"
  proof
    fix i assume "i \<in> set (simd_indices wh)"
    then obtain k where k: "i = 16 * k" "k < ?m"
      unfolding si by auto
    then have "16 * k + 16 \<le> 16 * ?m" by simp
    then show "i + 16 \<le> length result"
      using k(1) n16 assms by simp
  qed
  have z: "length (replicate 4 (0 :: real)) = 4" by simp
  note L = var_loop_sum[OF r z, of "- 1 * mean"]
  have c: "concat (map (\<lambda>i. take 16 (drop i result)) (simd_indices wh))
      = take (wh - wh mod 16) result"
    unfolding si using concat_chunks[of result ?m] by (simp only: n16)
  have v: "sum_list (V0_var_loop result (simd_indices wh) (replicate 4 (- 1 * mean)) (replicate 4 0))
      = sum_list (map ?g (take (wh - wh mod 16) result))"
    using conjunct2[OF L] by (simp only: c fg) (simp add: sum_list_replicate)
  have lo: "wh - wh mod 16 \<le> length result"
    using assms by simp
  have d: "map (\<lambda>i. ?g (result ! i)) (rest_indices wh) = map ?g (drop (wh - wh mod 16) result)"
    unfolding rest_indices_def using map_nth_upt_drop[OF lo, of ?g] by (simp only: assms)
  have "sum_list (map ?g (take (wh - wh mod 16) result))
      + sum_list (map ?g (drop (wh - wh mod 16) result))
      = sum_list (map ?g (take (wh - wh mod 16) result @ drop (wh - wh mod 16) result))"
    by (simp only: map_append sum_list_append)
  also have "\<dots> = variance_sum result mean"
    by (simp only: append_take_drop_id variance_sum_def)
  finally have t: "sum_list (map ?g (take (wh - wh mod 16) result))
      + sum_list (map ?g (drop (wh - wh mod 16) result)) = variance_sum result mean" .
  show ?thesis
    unfolding V0_variance_def Let_def mm_set1_ps_def
    by (simp only: hadd_sum[OF conjunct1[OF L]] v d t)
qed

lemma length_pack: "length (V0_pack g) = 16"
  by (cases g) (simp add: V0_pack_def mm_or_si128_def mm_shuffle_epi8_def mask_grey_def mask_grey2_def)

lemma length_concat_pack: "length (concat (map (\<lambda>i. V0_pack (g i)) idx)) = 16 * length idx"
  by (induction idx) (simp_all add: length_pack)

lemma length_V0_buffer:
  "length (concat (map (\<lambda>i. V0_pack (g i)) (simd_indices wh)) @ map f (rest_indices wh)) = wh"
proof -
  have n: "16 * ((wh - wh mod 16) div 16) = wh - wh mod 16"
    by (simp add: minus_mod_eq_mult_div)
  have "length (concat (map (\<lambda>i. V0_pack (g i)) (simd_indices wh))) = 16 * length (simd_indices wh)"
    by (rule length_concat_pack)
  also have "\<dots> = wh - wh mod 16"
    using n by (simp add: simd_indices_def)
  finally show ?thesis
    by (simp add: rest_indices_def)
qed

lemma bsum_real: "real_of_int (bsum stage) = sum_list (map (\<lambda>p. real (unat p)) stage)"
  by (induction stage) (simp_all add: bsum_def)

lemma clamp_i16_byte: "clamp_i16 (word_of_int (trunc (real (unat (p :: uint8_t))))) = p"
proof -
  have "trunc (real_of_int (uint p)) = uint p"
    by (simp add: trunc_def del: of_int_uint)
  then have t: "trunc (real (unat p)) = uint p"
    by simp
  have b: "0 \<le> uint p" "uint p \<le> 255"
    by (simp_all add: uint_byte_le)
  have b1: "- 32768 \<le> uint p"
    using uint_ge_0[of p] by linarith
  have b2: "uint p < 32768"
    using uint_byte_le[of p] by linarith
  have "clamp_i16 (word_of_int (uint p)) = word_of_int (clamp_int (uint p))"
    by (rule clamp_i16_word_of_int[OF b1 b2])
  also have "\<dots> = word_of_int (uint p)"
    by (simp only: clamp_int_id[OF b])
  finally show ?thesis
    by (simp only: t) simp
qed

lemma V0_contrast_zero:
  assumes "0 < wh" "length stage = wh" "variance_sum stage (mean / real wh) / real wh = 0"
  shows "V0_contrast stage mean wh contrast = Some (Inr stage)"
proof -
  let ?m = "mean / real wh"
  have v: "variance_sum stage ?m = 0"
    using assms(1,3) by simp
  have v0: "V0_variance stage wh ?m = 0"
    by (simp only: V0_variance_eq[OF assms(2)] assms(3))
  obtain q where q: "q \<in> set stage"
    using assms(1,2) by (cases stage) auto
  have mq: "?m = real (unat q)"
    using zero_variance_bytes[OF v q] by simp
  have "0 \<le> ?m" "?m \<le> 255"
    unfolding mq using real_byte_bounds[of q] by simp_all
  then have r: "- 32769 < ?m" "?m < 32768"
    by linarith+
  have "map (\<lambda>p. map (\<lambda>i. clamp_i16 (word_of_int (trunc ?m))) [0..<256] ! unat p) stage
      = map (\<lambda>p. p) stage"
  proof (rule map_cong[OF refl])
    fix p assume "p \<in> set stage"
    then have "?m = real (unat p)"
      using zero_variance_bytes[OF v] by simp
    then have "clamp_i16 (word_of_int (trunc ?m)) = p"
      by (simp only: clamp_i16_byte)
    then show "map (\<lambda>i. clamp_i16 (word_of_int (trunc ?m))) [0..<256] ! unat p = p"
      using unat_byte_less[of p] by simp
  qed
  then show ?thesis
    using assms(1) by (simp add: V0_contrast_def Let_def v0 factors_var_0 lookup_V0_flat[OF r])
qed

lemma fst_rest_step: "fst (V0_rest_step res) = ucast res"
  by (simp add: V0_rest_step_def)

lemma fst_rest_bright_step: "fst (V0_rest_bright_step res) = clamp_i16 res"
  by (simp add: V0_rest_bright_step_def clamp_i16_def)

lemma V0_length:
  assumes "brightness_contrast_V0 img width height a b c brightness None = Some (Inr stage)"
  shows "length stage = width * height"
proof -
  obtain cs where cs: "convert_coeffs_to_max256 a b c = Some (Inr cs)"
    using assms by (auto simp add: brightness_contrast_V0_def Let_def
        split: option.splits sum.splits)
  show ?thesis
    using assms length_V0_buffer[of _ "width * height"]
    by (auto simp add: brightness_contrast_V0_def Let_def cs split: if_splits)
qed

lemma V0_zero:
  assumes "0 < width * height" "length img = 3 * (width * height)"
    and "variance_sum stage (sum_list (map (\<lambda>p. real (unat p)) stage) / real (width * height))
           / real (width * height) = 0"
    and "brightness_contrast_V0 img width height a b c brightness None = Some (Inr stage)"
  shows "brightness_contrast_V0 img width height a b c brightness (Some contrast) = Some (Inr stage)"
proof -
  let ?wh = "width * height"
  obtain cs where cs: "convert_coeffs_to_max256 a b c = Some (Inr cs)"
    using assms(4) by (auto simp add: brightness_contrast_V0_def Let_def
        split: option.splits sum.splits)
  have t: "total cs = 256" by (rule convert_total[OF cs])
  have g1: "\<And>k. k < (?wh - ?wh mod 16) div 16 \<Longrightarrow> good (V0_grey16 img cs (16 * k))"
    by (rule good_grey16[OF simd_index_in_range[OF assms(2)]])
  have g2: "\<And>k. k < (?wh - ?wh mod 16) div 16 \<Longrightarrow> good (V0_grey16_bright img cs brightness (16 * k))"
    by (rule good_grey16_bright[OF simd_index_in_range[OF assms(2)]])
  let ?r1 = "\<lambda>i. V0_rest_step (V0_rest img cs i)"
  let ?r2 = "\<lambda>i. V0_rest_bright_step (V0_rest img cs i + brightness)"
  have r1: "\<And>i. snd (?r1 i) = real_of_int (uint (fst (?r1 i)))"
    by (rule rest_step_exact[OF t])
  have r2: "\<And>i. snd (?r2 i) = real_of_int (uint (fst (?r2 i)))"
    by (rule rest_bright_step_exact)
  have l: "length stage = ?wh"
    using assms(4) length_V0_buffer[of _ ?wh]
    by (auto simp add: brightness_contrast_V0_def Let_def cs split: if_splits)
  have z: "V0_contrast stage (real_of_int (bsum stage)) ?wh contrast = Some (Inr stage)"
    by (rule V0_contrast_zero[OF assms(1) l]) (simp only: bsum_real assms(3))
  show ?thesis
  proof (cases "brightness = 0")
    case True
    have s: "concat (map (\<lambda>i. V0_pack (V0_grey16 img cs i)) (simd_indices ?wh))
        @ map (\<lambda>i. fst (?r1 i)) (rest_indices ?wh) = stage"
      using assms(4) True
      by (simp add: brightness_contrast_V0_def Let_def cs fst_rest_step)
    have "V0_stats (V0_grey16 img cs) ?r1 ?wh = (stage, real_of_int (bsum stage))"
      using V0_stats_exact[where grey = "V0_grey16 img cs" and rest = ?r1 and wh = ?wh, OF g1 r1]
      by (simp only: s)
    then show ?thesis
      using True z by (simp add: brightness_contrast_V0_def Let_def cs)
  next
    case False
    have s: "concat (map (\<lambda>i. V0_pack (V0_grey16_bright img cs brightness i)) (simd_indices ?wh))
        @ map (\<lambda>i. fst (?r2 i)) (rest_indices ?wh) = stage"
      using assms(4) False
      by (simp add: brightness_contrast_V0_def Let_def cs fst_rest_bright_step)
    have "V0_stats (V0_grey16_bright img cs brightness) ?r2 ?wh = (stage, real_of_int (bsum stage))"
      using V0_stats_exact[where grey = "V0_grey16_bright img cs brightness" and rest = ?r2
          and wh = ?wh, OF g2 r2]
      by (simp only: s)
    then show ?thesis
      using False z by (simp add: brightness_contrast_V0_def Let_def cs)
  qed
qed

lemma uniform_variance:
  assumes "0 < wh" "length stage = wh" "\<forall>p \<in> set stage. p = q"
  shows "variance_sum stage (sum_list (map (\<lambda>p. real (unat p)) stage) / real wh) / real wh = 0"
proof -
  have s: "stage = replicate wh q"
    using assms(2,3) replicate_length_same[of stage q] by simp
  have m: "sum_list (map (\<lambda>p. real (unat p)) (replicate wh q)) / real wh = real (unat q)"
    using assms(1) by (simp add: sum_list_replicate)
  show ?thesis
    unfolding s m by (simp add: variance_sum_def sum_list_replicate)
qed

text \<open>
  C5: let \<open>stage\<close> be the buffer that a variant returns when no contrast is given
  (the buffer after its brightness stage), for an image of at least one pixel, and
  let the population variance of \<open>stage\<close> about its mean be 0. Then for every
  contrast the factor \<^verbatim>\<open>kstd\<close> is 0 and \<^verbatim>\<open>summand\<close> is the mean, and the call
  with that contrast returns success with the buffer \<open>stage\<close> unchanged, in
  \<^verbatim>\<open>brightness_contrast_V1\<close>, \<^verbatim>\<open>brightness_contrast_V2\<close> and
  \<^verbatim>\<open>brightness_contrast_V0\<close> (whose vectorized variance is then 0 as well).
  A buffer of \<open>width * height\<close> equal bytes has variance 0. Floating values are
  taken as exact reals.
\<close>

theorem variance_zero:
  assumes "0 < width * height" "length img = 3 * (width * height)"
    and "mean = sum_list (map (\<lambda>p. real (unat p)) stage) / real (width * height)"
    and "variance_sum stage mean / real (width * height) = 0"
  shows "contrast_factors contrast mean (variance_sum stage mean / real (width * height))
           = Some (Inr (0, mean))
       \<and> (brightness_contrast_V1 img width height a b c brightness None = Some (Inr stage) \<longrightarrow>
            brightness_contrast_V1 img width height a b c brightness (Some contrast)
              = Some (Inr stage))
       \<and> (brightness_contrast_V2 img width height a b c brightness None = Some (Inr stage) \<longrightarrow>
            brightness_contrast_V2 img width height a b c brightness (Some contrast)
              = Some (Inr stage))
       \<and> (brightness_contrast_V0 img width height a b c brightness None = Some (Inr stage) \<longrightarrow>
            V0_variance stage (width * height) mean = 0
          \<and> brightness_contrast_V0 img width height a b c brightness (Some contrast)
              = Some (Inr stage))
       \<and> (length buffer = width * height \<and> (\<forall>p \<in> set buffer. p = q) \<longrightarrow>
            variance_sum buffer
              (sum_list (map (\<lambda>p. real (unat p)) buffer) / real (width * height))
              / real (width * height) = 0)"
proof -
  note v = assms(4)[unfolded assms(3)]
  have 1: "contrast_factors contrast mean (variance_sum stage mean / real (width * height))
      = Some (Inr (0, mean))"
    by (simp only: assms(4) factors_var_0)
  have 2: "brightness_contrast_V1 img width height a b c brightness None = Some (Inr stage) \<longrightarrow>
      brightness_contrast_V1 img width height a b c brightness (Some contrast) = Some (Inr stage)"
    using V1_zero[OF assms(1) v] by blast
  have 3: "brightness_contrast_V2 img width height a b c brightness None = Some (Inr stage) \<longrightarrow>
      brightness_contrast_V2 img width height a b c brightness (Some contrast) = Some (Inr stage)"
    using V2_zero[OF assms(1) v] by blast
  have 4: "brightness_contrast_V0 img width height a b c brightness None = Some (Inr stage) \<longrightarrow>
      V0_variance stage (width * height) mean = 0
      \<and> brightness_contrast_V0 img width height a b c brightness (Some contrast) = Some (Inr stage)"
  proof
    assume n: "brightness_contrast_V0 img width height a b c brightness None = Some (Inr stage)"
    have "length stage = width * height"
      by (rule V0_length[OF n])
    then have "V0_variance stage (width * height) mean = 0"
      by (simp only: V0_variance_eq assms(4))
    then show "V0_variance stage (width * height) mean = 0
      \<and> brightness_contrast_V0 img width height a b c brightness (Some contrast) = Some (Inr stage)"
      using V0_zero[OF assms(1,2) v n] by (intro conjI)
  qed
  have 5: "length buffer = width * height \<and> (\<forall>p \<in> set buffer. p = q) \<longrightarrow>
      variance_sum buffer
        (sum_list (map (\<lambda>p. real (unat p)) buffer) / real (width * height))
        / real (width * height) = 0"
    using uniform_variance[OF assms(1)] by blast
  from 1 2 3 4 5 show ?thesis by (intro conjI)
qed

text \<open>
  A uniform image: with the weights (1, 1, 2) every operation of the grayscale
  stage is exact.
\<close>

lemma sum_112: "weight_sum 1 1 2 = Fin 4"
  by (simp add: weight_sum_def fp_add_def f32_numeral)

lemma exact_112:
  "f32 (1 / 4) = Fin (1 / 4)" "f32 (1 / 2) = Fin (1 / 2)" "f32 (5 / 2) = Fin (5 / 2)"
  using f32_exact[of "1 / 4" 1 "- 2"] f32_exact[of "1 / 2" 1 "- 1"]
    f32_exact[of "5 / 2" 5 "- 1"]
  by simp_all

lemma weighted_112:
  "weighted (Fin (1 / 4)) (Fin (1 / 4)) (Fin (1 / 2)) [10, 10, 10, 10, 10, 10] 0 = Fin 10"
  "weighted (Fin (1 / 4)) (Fin (1 / 4)) (Fin (1 / 2)) [10, 10, 10, 10, 10, 10] (Suc 0) = Fin 10"
  by (simp_all add: weighted_def fp_mul_def fp_add_def exact_112 f32_numeral)

lemma weighted_112_raw:
  "weighted (Fin 1) (Fin 1) (Fin 2) [10, 10, 10, 10, 10, 10] 0 = Fin 40"
  "weighted (Fin 1) (Fin 1) (Fin 2) [10, 10, 10, 10, 10, 10] (Suc 0) = Fin 40"
  by (simp_all add: weighted_def fp_mul_def fp_add_def f32_numeral)

lemma uniform_V1:
  "brightness_contrast_V1 [10, 10, 10, 10, 10, 10] 2 1 1 1 2 5 None = Some (Inr [15, 15])"
  by (simp add: brightness_contrast_V1_def sum_112 fp_div_def exact_112 V1_bright_def
      weighted_112 V1_add_brightness_def fp_add_def f32_numeral fclamp_u8_def clamp_u8_def
      trunc_def upt_2)

lemma uniform_V2:
  "brightness_contrast_V2 [10, 10, 10, 10, 10, 10] 2 1 1 1 2 5 None = Some (Inr [15, 15])"
  by (simp add: brightness_contrast_V2_def V2_grey_def sum_112 weighted_112_raw fp_div_def
      f32_numeral fcast_u8_def cast_u8_def V2_bright_def clamp_u8_def trunc_def upt_2)

lemma convert_coeffs_112: "convert_coeffs_to_max256 1 1 2 = Some (Inr (64, 64, 128))"
proof -
  have "init_coeffs 1 1 2 = Some (64, 64, 128)"
    by (simp add: init_coeffs_def sum_112 init_coeff_def fp_div_def fp_mul_def exact_112
        f32_numeral fcast_u16_def trunc_def)
  then show ?thesis
    by (simp add: convert_coeffs_to_max256_def adjust_loop.simps total_def)
qed

lemma uniform_V0:
  "brightness_contrast_V0 [10, 10, 10, 10, 10, 10] 2 1 1 1 2 5 None = Some (Inr [15, 15])"
proof -
  have "brightness_contrast_V0 [10, 10, 10, 10, 10, 10] 2 1 1 1 2 5 None
      = Some (Inr (map (\<lambda>p. word_of_int (clamp_int (grey_int (64, 64, 128) p + sint (5 :: int16_t))))
           (triples [10, 10, 10, 10, 10, 10])))"
    by (rule V0_unset[OF convert_coeffs_112]) simp_all
  then show ?thesis
    by (simp add: grey_int_def weighted_int_def clamp_int_def)
qed

theorem variance_zero_witness:
  "0 < (2 :: nat) * 1 \<and> length [10, 10, 10, 10, 10, 10 :: uint8_t] = 3 * (2 * 1)
   \<and> (15 :: real) = sum_list (map (\<lambda>p. real (unat p)) [15, 15 :: uint8_t]) / real (2 * 1)
   \<and> variance_sum [15, 15] 15 / real (2 * 1) = 0
   \<and> brightness_contrast_V1 [10, 10, 10, 10, 10, 10] 2 1 1 1 2 5 None = Some (Inr [15, 15])
   \<and> brightness_contrast_V2 [10, 10, 10, 10, 10, 10] 2 1 1 1 2 5 None = Some (Inr [15, 15])
   \<and> brightness_contrast_V0 [10, 10, 10, 10, 10, 10] 2 1 1 1 2 5 None = Some (Inr [15, 15])
   \<and> contrast_factors 100 15 (variance_sum [15, 15] 15 / real (2 * 1)) = Some (Inr (0, 15))
   \<and> brightness_contrast_V1 [10, 10, 10, 10, 10, 10] 2 1 1 1 2 5 (Some 100) = Some (Inr [15, 15])
   \<and> brightness_contrast_V2 [10, 10, 10, 10, 10, 10] 2 1 1 1 2 5 (Some 100) = Some (Inr [15, 15])
   \<and> V0_variance [15, 15] (2 * 1) 15 = 0
   \<and> brightness_contrast_V0 [10, 10, 10, 10, 10, 10] 2 1 1 1 2 5 (Some 100) = Some (Inr [15, 15])
   \<and> variance_sum [15, 15]
         (sum_list (map (\<lambda>p. real (unat p)) [15, 15 :: uint8_t]) / real (2 * 1)) / real (2 * 1) = 0"
proof -
  have m: "(15 :: real) = sum_list (map (\<lambda>p. real (unat p)) [15, 15 :: uint8_t]) / real (2 * 1)"
    by simp
  have z: "variance_sum [15, 15] 15 / real (2 * 1) = 0"
    by (simp add: variance_sum_def)
  have h1: "0 < (2 :: nat) * 1" by simp
  have h2: "length [10, 10, 10, 10, 10, 10 :: uint8_t] = 3 * (2 * 1)" by simp
  have h3: "length [15, 15 :: uint8_t] = 2 * 1 \<and> (\<forall>p \<in> set [15, 15 :: uint8_t]. p = 15)"
    by simp
  note T = variance_zero[of 2 1 "[10, 10, 10, 10, 10, 10]" 15 "[15, 15]" 100 1 1 2 5 "[15, 15]" 15,
      OF h1 h2 m z]
  note c1 = T[THEN conjunct1]
  note c2 = mp[OF T[THEN conjunct2, THEN conjunct1] uniform_V1]
  note c3 = mp[OF T[THEN conjunct2, THEN conjunct2, THEN conjunct1] uniform_V2]
  note c4 = mp[OF T[THEN conjunct2, THEN conjunct2, THEN conjunct2, THEN conjunct1] uniform_V0]
  note c5 = mp[OF T[THEN conjunct2, THEN conjunct2, THEN conjunct2, THEN conjunct2] h3]
  from h1 h2 m z uniform_V1 uniform_V2 uniform_V0 c1 c2 c3 c4[THEN conjunct1] c4[THEN conjunct2] c5
  show ?thesis by (intro conjI)
qed

end
